theory Spec2Isabelle
  imports Complex_Main
begin

section \<open>Data model (types.ts)\<close>

text \<open>
  JavaScript numbers are modelled as real numbers: arithmetic is exact, there is no
  rounding, no NaN and no infinity. Identifiers (the results of \<open>uuidv4()\<close>) are strings
  handed to the handlers as an argument.

  \<open>CanvasItem = Stroke | Widget\<close> is discriminated by its \<open>type\<close> property. At run time
  both variants are plain objects: the handlers spread any item and set \<open>selected\<close> on it
  (\<open>{...i, selected: ...}\<close>) and read \<open>(item as Widget).visible\<close> from strokes as well.
  The model is therefore one record holding the properties of both variants; a property
  the object may lack (\<open>undefined\<close>) is an option. The numeric properties \<open>x\<close>, \<open>y\<close>,
  \<open>angle\<close> and \<open>scale\<close> are mandatory on a widget; a stroke does not have them and the
  model stores 0 there (no handler reads them from a stroke unless the stroke shares its
  id with the selected widget).
\<close>

record Point =
  p_x :: real
  p_y :: real

datatype ToolMode =
  MSelect | MPen | MEraser | MText | MRuler | MProtractor | MCompass | MTriangle

datatype StrokeStyle = Solid | Dashed | Dotted | Marker

text \<open>The \<open>type\<close> tags; \<open>ImageT\<close> is \<open>'image'\<close>.\<close>

datatype ItemType = Stroke | Ruler | Protractor | Compass | Triangle | ImageT | Text

record CanvasItem =
  i_id :: string
  i_type :: ItemType
  i_points :: "Point list"
  i_color :: "string option"
  i_width :: "real option"
  i_strokeStyle :: "StrokeStyle option"
  i_x :: real
  i_y :: real
  i_angle :: real
  i_scale :: real
  i_selected :: "bool option"
  i_visible :: "bool option"
  i_text :: "string option"
  i_src :: "string option"
  i_height :: "real option"
  i_radius :: "real option"

text \<open>\<open>v || d\<close> on an optional number: \<open>undefined\<close> and \<open>0\<close> are falsy.\<close>

definition orDefault :: "real option \<Rightarrow> real \<Rightarrow> real" where
  "orDefault v d = (case v of None \<Rightarrow> d | Some r \<Rightarrow> if r = 0 then d else r)"

section \<open>Geometry and snapping (components/CanvasUtils)\<close>

definition convertLocalToWorld :: "real \<Rightarrow> real \<Rightarrow> real \<Rightarrow> real \<Rightarrow> real \<Rightarrow> Point" where
  "convertLocalToWorld lx ly cx cy rad =
     (let c = cos rad;
          s = sin rad;
          wx = lx * c - ly * s + cx;
          wy = lx * s + ly * c + cy
      in \<lparr>p_x = wx, p_y = wy\<rparr>)"

text \<open>
  The world-to-local step of \<open>getSnapPoint\<close> (the lines from \<open>const cos = Math.cos(-rad)\<close>
  to \<open>const localY = ...\<close>): subtract the pivot, rotate by \<open>-rad\<close>.
\<close>

definition worldToLocal :: "real \<Rightarrow> real \<Rightarrow> real \<Rightarrow> real \<Rightarrow> real \<Rightarrow> Point" where
  "worldToLocal x y cx cy rad =
     (let c = cos (- rad);
          s = sin (- rad);
          dx = x - cx;
          dy = y - cy;
          localX = dx * c - dy * s;
          localY = dx * s + dy * c
      in \<lparr>p_x = localX, p_y = localY\<rparr>)"

text \<open>
  The body of the loop of \<open>getSnapPoint\<close> for one item: \<open>Some p\<close> where the source
  returns \<open>p\<close>, \<open>None\<close> where it goes on to the next item.
\<close>

definition snapItem :: "real \<Rightarrow> real \<Rightarrow> CanvasItem \<Rightarrow> real \<Rightarrow> Point option" where
  "snapItem x y item threshold =
     (if i_visible item = Some False then None
      else if i_type item = Ruler \<or> i_type item = Triangle then
        (let w = orDefault (i_width item) 100;
             h = orDefault (i_height item) 50;
             rad = (i_angle item * pi) / 180;
             loc = worldToLocal x y (i_x item) (i_y item) rad;
             localX = p_x loc;
             localY = p_y loc;
             onRuler =
               (if i_type item = Ruler then
                  (if localX \<ge> - w / 2 - threshold \<and> localX \<le> w / 2 + threshold then
                     (if \<bar>localY - (- h / 2)\<bar> < threshold then
                        Some (convertLocalToWorld localX (- h / 2) (i_x item) (i_y item) rad)
                      else if \<bar>localY - (h / 2)\<bar> < threshold then
                        Some (convertLocalToWorld localX (h / 2) (i_x item) (i_y item) rad)
                      else None)
                   else None)
                else None)
         in case onRuler of
              Some p \<Rightarrow> Some p
            | None \<Rightarrow>
               (if i_type item = Triangle then
                  (if localX \<ge> 0 - threshold \<and> localX \<le> w + threshold \<and> \<bar>localY\<bar> < threshold then
                     Some (convertLocalToWorld localX 0 (i_x item) (i_y item) rad)
                   else if localY \<ge> 0 - threshold \<and> localY \<le> h + threshold \<and> \<bar>localX\<bar> < threshold then
                     Some (convertLocalToWorld 0 localY (i_x item) (i_y item) rad)
                   else None)
                else None))
      else None)"

fun getSnapPoint :: "real \<Rightarrow> real \<Rightarrow> CanvasItem list \<Rightarrow> real \<Rightarrow> Point option" where
  "getSnapPoint x y [] threshold = None"
| "getSnapPoint x y (item # rest) threshold =
     (case snapItem x y item threshold of
        Some p \<Rightarrow> Some p
      | None \<Rightarrow> getSnapPoint x y rest threshold)"

record CompassPoints =
  needle :: Point
  pencil :: Point

definition getCompassPoints :: "CanvasItem \<Rightarrow> CompassPoints" where
  "getCompassPoints c =
     (let height = orDefault (i_height c) 150;
          spread = 40;
          rad = (i_angle c * pi) / 180
      in \<lparr>needle = convertLocalToWorld (- spread) height (i_x c) (i_y c) rad,
          pencil = convertLocalToWorld spread height (i_x c) (i_y c) rad\<rparr>)"

section \<open>Application state (App.tsx)\<close>

text \<open>
  The component's \<open>useState\<close> and \<open>useRef\<close> cells that the canvas handlers read or write.
  The AI panel and the modals are left out: no handler below reads them. A handler sees
  the state of the latest render and React re-renders after every event, so the \<open>items\<close>
  of a handler's closure and the \<open>prev\<close> of its \<open>setItems\<close> updater are the same list.
  \<open>canvas\<close> is \<open>canvasRef.current\<close>: the element's width and height once it is mounted.
\<close>

datatype DragType = Move | Rotate | Compass_arc

record AppState =
  mode :: ToolMode
  color :: string
  width :: real
  strokeStyle :: StrokeStyle
  items :: "CanvasItem list"
  currentStroke :: "CanvasItem option"
  snap :: bool
  grid :: bool
  canvas :: "(real \<times> real) option"
  isDragging :: bool
  dragType :: "DragType option"
  lastPos :: Point
  selectedItemId :: "string option"
  compassPivot :: "Point option"

text \<open>\<open>Math.hypot\<close> and \<open>Math.atan2\<close> on reals (no signed zero).\<close>

definition hypot :: "real \<Rightarrow> real \<Rightarrow> real" where
  "hypot a b = sqrt (a * a + b * b)"

definition atan2 :: "real \<Rightarrow> real \<Rightarrow> real" where
  "atan2 b a =
     (if a > 0 then arctan (b / a)
      else if a < 0 \<and> b \<ge> 0 then arctan (b / a) + pi
      else if a < 0 then arctan (b / a) - pi
      else if b > 0 then pi / 2
      else if b < 0 then - pi / 2
      else 0)"

text \<open>A string reference is truthy when it is neither \<open>null\<close> nor the empty string.\<close>

definition truthyId :: "string option \<Rightarrow> bool" where
  "truthyId r = (case r of None \<Rightarrow> False | Some i \<Rightarrow> i \<noteq> [])"

text \<open>The stroke object literal of \<open>handleMouseDown\<close>.\<close>

definition newStroke :: "string \<Rightarrow> Point list \<Rightarrow> string \<Rightarrow> real \<Rightarrow> StrokeStyle \<Rightarrow> CanvasItem" where
  "newStroke uuid pts col w st =
     \<lparr>i_id = uuid, i_type = Stroke, i_points = pts, i_color = Some col, i_width = Some w,
      i_strokeStyle = Some st, i_x = 0, i_y = 0, i_angle = 0, i_scale = 0,
      i_selected = None, i_visible = None, i_text = None, i_src = None,
      i_height = None, i_radius = None\<rparr>"

subsection \<open>Pointer handlers\<close>

text \<open>The predicate of the hit test of \<open>handleMouseDown\<close> and the hit test itself.\<close>

definition isHit :: "real \<Rightarrow> real \<Rightarrow> CanvasItem \<Rightarrow> bool" where
  "isHit x y item =
     (if i_visible item = Some False then False
      else if i_type item = Stroke then False
      else (let dx = x - i_x item;
                dy = y - i_y item
            in hypot dx dy < 100))"

definition hitTest :: "CanvasItem list \<Rightarrow> real \<Rightarrow> real \<Rightarrow> CanvasItem option" where
  "hitTest its x y = find (isHit x y) (rev its)"

definition handleMouseDown :: "AppState \<Rightarrow> real \<Rightarrow> real \<Rightarrow> nat \<Rightarrow> string \<Rightarrow> AppState" where
  "handleMouseDown s x y button uuid =
     (let isRightClick = (button = 2);
          clickedItem = hitTest (items s) x y;
          s1 = (case clickedItem of
                  Some c \<Rightarrow>
                    (let sa = s\<lparr>selectedItemId := Some (i_id c),
                                items := map (\<lambda>i. i\<lparr>i_selected := Some (i_id i = i_id c)\<rparr>) (items s)\<rparr>
                     in if isRightClick then
                          (if i_type c = Compass then
                             (let points = getCompassPoints c
                              in sa\<lparr>dragType := Some Compass_arc,
                                    compassPivot := Some (needle points),
                                    currentStroke :=
                                      Some (newStroke uuid [pencil points] (color s) (width s) (strokeStyle s))\<rparr>)
                           else sa\<lparr>dragType := Some Rotate\<rparr>)
                        else (if mode s = MSelect then sa\<lparr>dragType := Some Move\<rparr> else sa))
                | None \<Rightarrow>
                    (if mode s = MSelect then
                       s\<lparr>selectedItemId := None,
                         items := map (\<lambda>i. i\<lparr>i_selected := Some False\<rparr>) (items s),
                         dragType := None\<rparr>
                     else s));
          penDown = (\<not> isRightClick \<and> mode s = MPen);
          snapPos = (if penDown \<and> snap s then getSnapPoint x y (items s) 20 else None);
          x1 = (case snapPos of Some p \<Rightarrow> p_x p | None \<Rightarrow> x);
          y1 = (case snapPos of Some p \<Rightarrow> p_y p | None \<Rightarrow> y);
          s2 = (if penDown then
                  s1\<lparr>currentStroke :=
                       Some (newStroke uuid [\<lparr>p_x = x1, p_y = y1\<rparr>] (color s) (width s) (strokeStyle s)),
                     dragType := None\<rparr>
                else s1);
          s3 = (if mode s = MEraser then s2\<lparr>dragType := None\<rparr> else s2)
      in s3\<lparr>lastPos := \<lparr>p_x = x1, p_y = y1\<rparr>, isDragging := True\<rparr>)"

text \<open>
  The \<open>compass_arc\<close> branch of \<open>handleMouseMove\<close>: the updater of \<open>setItems\<close> for one
  item, and the pencil point computed from the item found by id.
\<close>

definition arcItem :: "Point \<Rightarrow> real \<Rightarrow> string option \<Rightarrow> CanvasItem \<Rightarrow> CanvasItem" where
  "arcItem pivot deltaAngle sel item =
     (if Some (i_id item) = sel then
        (let newAngle = i_angle item + deltaAngle;
             spread = 40;
             height = orDefault (i_height item) 150;
             rad = (newAngle * pi) / 180;
             c = cos rad;
             sn = sin rad;
             vX = - spread * c - height * sn;
             vY = - spread * sn + height * c;
             newCx = p_x pivot - vX;
             newCy = p_y pivot - vY
         in item\<lparr>i_angle := newAngle, i_x := newCx, i_y := newCy\<rparr>)
      else item)"

definition arcPencil :: "Point \<Rightarrow> real \<Rightarrow> CanvasItem \<Rightarrow> Point" where
  "arcPencil pivot deltaAngle currentItem =
     (let newAngle = i_angle currentItem + deltaAngle;
          spread = 40;
          height = orDefault (i_height currentItem) 150;
          rad = (newAngle * pi) / 180;
          c = cos rad;
          sn = sin rad;
          vX = - spread * c - height * sn;
          vY = - spread * sn + height * c;
          newCx = p_x pivot - vX;
          newCy = p_y pivot - vY;
          pX = spread * c - height * sn + newCx;
          pY = spread * sn + height * c + newCy
      in \<lparr>p_x = pX, p_y = pY\<rparr>)"

text \<open>The predicate of the eraser's \<open>filter\<close>: \<open>True\<close> keeps the item.\<close>

definition eraseKeeps :: "real \<Rightarrow> real \<Rightarrow> CanvasItem \<Rightarrow> bool" where
  "eraseKeeps x y item =
     (if i_visible item = Some False then True
      else if i_type item = Stroke then
        \<not> list_ex (\<lambda>p. hypot (p_x p - x) (p_y p - y) < 20) (i_points item)
      else True)"

definition handleMouseMove :: "AppState \<Rightarrow> real \<Rightarrow> real \<Rightarrow> AppState" where
  "handleMouseMove s x y =
     (if \<not> isDragging s then s
      else if dragType s = Some Compass_arc \<and> truthyId (selectedItemId s) \<and> compassPivot s \<noteq> None then
        (case compassPivot s of
           None \<Rightarrow> s
         | Some pivot \<Rightarrow>
            (let dx = x - p_x pivot;
                 dy = y - p_y pivot;
                 mouseAngle = atan2 dy dx * 180 / pi;
                 oldDx = p_x (lastPos s) - p_x pivot;
                 oldDy = p_y (lastPos s) - p_y pivot;
                 oldAngle = atan2 oldDy oldDx * 180 / pi;
                 deltaAngle = mouseAngle - oldAngle;
                 currentItem = find (\<lambda>i. Some (i_id i) = selectedItemId s) (items s)
             in s\<lparr>items := map (arcItem pivot deltaAngle (selectedItemId s)) (items s),
                  currentStroke :=
                    (case currentItem of
                       None \<Rightarrow> currentStroke s
                     | Some ci \<Rightarrow>
                         map_option
                           (\<lambda>prev. prev\<lparr>i_points := i_points prev @ [arcPencil pivot deltaAngle ci]\<rparr>)
                           (currentStroke s)),
                  lastPos := \<lparr>p_x = x, p_y = y\<rparr>\<rparr>))
      else if dragType s = Some Rotate \<and> truthyId (selectedItemId s) then
        (let deltaY = y - p_y (lastPos s);
             rotationSpeed = 0.5
         in s\<lparr>items := map (\<lambda>item. if Some (i_id item) = selectedItemId s
                                      then item\<lparr>i_angle := i_angle item + deltaY * rotationSpeed\<rparr>
                                      else item) (items s),
              lastPos := \<lparr>p_x = x, p_y = y\<rparr>\<rparr>)
      else if mode s = MPen \<and> currentStroke s \<noteq> None then
        (let snapPos = (if snap s then getSnapPoint x y (items s) 20 else None);
             x1 = (case snapPos of Some p \<Rightarrow> p_x p | None \<Rightarrow> x);
             y1 = (case snapPos of Some p \<Rightarrow> p_y p | None \<Rightarrow> y)
         in s\<lparr>currentStroke :=
                map_option (\<lambda>prev. prev\<lparr>i_points := i_points prev @ [\<lparr>p_x = x1, p_y = y1\<rparr>]\<rparr>)
                  (currentStroke s),
              lastPos := \<lparr>p_x = x1, p_y = y1\<rparr>\<rparr>)
      else if dragType s = Some Move \<and> truthyId (selectedItemId s) then
        (let dx = x - p_x (lastPos s);
             dy = y - p_y (lastPos s)
         in s\<lparr>items := map (\<lambda>item. if Some (i_id item) = selectedItemId s
                                      then item\<lparr>i_x := i_x item + dx, i_y := i_y item + dy\<rparr>
                                      else item) (items s),
              lastPos := \<lparr>p_x = x, p_y = y\<rparr>\<rparr>)
      else if mode s = MEraser then
        s\<lparr>items := filter (eraseKeeps x y) (items s), lastPos := \<lparr>p_x = x, p_y = y\<rparr>\<rparr>
      else s\<lparr>lastPos := \<lparr>p_x = x, p_y = y\<rparr>\<rparr>)"

definition handleMouseUp :: "AppState \<Rightarrow> AppState" where
  "handleMouseUp s =
     (let s1 = (case currentStroke s of
                  None \<Rightarrow> s
                | Some cs \<Rightarrow>
                    (if dragType s = Some Compass_arc then
                       s\<lparr>items := items s @ [cs], currentStroke := None\<rparr>
                     else if mode s = MPen then
                       s\<lparr>items := items s @ [cs], currentStroke := None\<rparr>
                     else s))
      in s1\<lparr>isDragging := False, dragType := None, compassPivot := None\<rparr>)"

definition handleWheel :: "AppState \<Rightarrow> real \<Rightarrow> AppState" where
  "handleWheel s deltaY =
     (if truthyId (selectedItemId s) then
        (let delta = sgn deltaY * 5
         in s\<lparr>items := map (\<lambda>item. if Some (i_id item) = selectedItemId s \<and> i_type item \<noteq> Stroke
                                      then item\<lparr>i_angle := orDefault (Some (i_angle item)) 0 + delta\<rparr>
                                      else item) (items s)\<rparr>)
      else s)"

subsection \<open>Tools, layer panel, paste and diagram injection\<close>

text \<open>\<open>Array.prototype.findIndex\<close>: \<open>None\<close> stands for \<open>-1\<close>.\<close>

fun findIndex :: "('a \<Rightarrow> bool) \<Rightarrow> 'a list \<Rightarrow> nat option" where
  "findIndex P [] = None"
| "findIndex P (a # as) =
     (if P a then Some 0 else map_option Suc (findIndex P as))"

text \<open>\<open>prev.map((i, idx) => f(i, idx))\<close>.\<close>

definition mapIdx :: "('a \<Rightarrow> nat \<Rightarrow> 'b) \<Rightarrow> 'a list \<Rightarrow> 'b list" where
  "mapIdx f as = map (\<lambda>(idx, i). f i idx) (enumerate 0 as)"

definition singletons :: "ItemType list" where
  "singletons = [Ruler, Protractor, Triangle, Compass]"

text \<open>\<open>TOOL_DEFAULTS\<close> of constants.ts, as \<open>addWidget\<close> uses them.\<close>

definition defaultWidth :: "ItemType \<Rightarrow> real option" where
  "defaultWidth ty = (if ty = Ruler then Some 400 else (if ty = Triangle then Some 200 else None))"

definition defaultHeight :: "ItemType \<Rightarrow> real option" where
  "defaultHeight ty =
     (if ty = Ruler then Some 50
      else (if ty = Triangle then Some 200 else (if ty = Compass then Some 150 else None)))"

definition defaultRadius :: "ItemType \<Rightarrow> real option" where
  "defaultRadius ty = (if ty = Protractor then Some 100 else None)"

text \<open>The widget object literal of \<open>addWidget\<close>, centred on the canvas.\<close>

definition newWidget :: "(real \<times> real) option \<Rightarrow> ItemType \<Rightarrow> string \<Rightarrow> CanvasItem" where
  "newWidget cv ty uuid =
     (let cx = (case cv of Some (cw, ch) \<Rightarrow> cw / 2 | None \<Rightarrow> 400);
          cy = (case cv of Some (cw, ch) \<Rightarrow> ch / 2 | None \<Rightarrow> 300)
      in \<lparr>i_id = uuid, i_type = ty, i_points = [], i_color = None,
          i_width = defaultWidth ty, i_strokeStyle = None,
          i_x = cx, i_y = cy, i_angle = 0, i_scale = 1,
          i_selected = Some True, i_visible = Some True,
          i_text = None, i_src = None,
          i_height = defaultHeight ty, i_radius = defaultRadius ty\<rparr>)"

text \<open>
  \<open>addWidget(type)\<close>. Its parameter has the type \<open>Widget['type']\<close>, which has every
  \<open>ItemType\<close> but \<open>Stroke\<close>; the toolbar calls it with the four instruments and \<open>Text\<close>.
  \<open>existingIndex\<close> is looked up only for a singleton type.
\<close>

definition addWidget :: "AppState \<Rightarrow> ItemType \<Rightarrow> string \<Rightarrow> AppState" where
  "addWidget s ty uuid =
     (case (if ty \<in> set singletons then findIndex (\<lambda>i. i_type i = ty) (items s) else None) of
        Some existingIndex \<Rightarrow>
          (let existing = items s ! existingIndex;
               willBeVisible = (i_visible existing = Some False);
               s1 = s\<lparr>items :=
                        mapIdx (\<lambda>i idx. if idx = existingIndex
                                         then i\<lparr>i_visible := Some willBeVisible, i_selected := Some willBeVisible\<rparr>
                                         else i\<lparr>i_selected := Some False\<rparr>) (items s)\<rparr>
           in if willBeVisible then s1\<lparr>selectedItemId := Some (i_id existing), mode := MSelect\<rparr>
              else (if selectedItemId s = Some (i_id existing) then s1\<lparr>selectedItemId := None\<rparr> else s1))
      | None \<Rightarrow>
          (let widget = newWidget (canvas s) ty uuid
           in s\<lparr>mode := MSelect,
                items := map (\<lambda>i. i\<lparr>i_selected := Some False\<rparr>) (items s) @ [widget],
                selectedItemId := Some uuid\<rparr>))"

definition toggleVisibility :: "AppState \<Rightarrow> string \<Rightarrow> AppState" where
  "toggleVisibility s ident =
     s\<lparr>items := map (\<lambda>item. if i_id item = ident
                              then item\<lparr>i_visible := Some (i_visible item \<noteq> Some True)\<rparr>
                              else item) (items s)\<rparr>"

definition deleteItem :: "AppState \<Rightarrow> string \<Rightarrow> AppState" where
  "deleteItem s ident = s\<lparr>items := filter (\<lambda>i. i_id i \<noteq> ident) (items s)\<rparr>"

text \<open>The layer panel lists \<open>widgetItems\<close>; a click on a row's label selects that widget.\<close>

definition widgetItems :: "AppState \<Rightarrow> CanvasItem list" where
  "widgetItems s = filter (\<lambda>i. i_type i \<noteq> Stroke) (items s)"

definition panelSelect :: "AppState \<Rightarrow> string \<Rightarrow> AppState" where
  "panelSelect s ident =
     s\<lparr>items := map (\<lambda>i. i\<lparr>i_selected := Some (i_id i = ident)\<rparr>) (items s),
       selectedItemId := Some ident\<rparr>"

definition clearBoard :: "AppState \<Rightarrow> AppState" where
  "clearBoard s = s\<lparr>items := []\<rparr>"

text \<open>
  The image widget literal shared in shape by \<open>handleCanvasPaste\<close> and
  \<open>handleGenerateTikz\<close>; \<open>dx\<close> and \<open>dy\<close> are the fallback coordinates and \<open>sc\<close> the scale.
  \<open>canvasRef.current?.width ? ... : d\<close> takes the fallback also for a zero width.
\<close>

definition imageWidget ::
  "AppState \<Rightarrow> string \<Rightarrow> string \<Rightarrow> real \<Rightarrow> real \<Rightarrow> real \<Rightarrow> real \<Rightarrow> real \<Rightarrow> CanvasItem" where
  "imageWidget s uuid source imgW imgH dx dy sc =
     \<lparr>i_id = uuid, i_type = ImageT, i_points = [], i_color = None,
      i_width = Some imgW, i_strokeStyle = None,
      i_x = (case canvas s of Some (cw, ch) \<Rightarrow> if cw \<noteq> 0 then cw / 2 else dx | None \<Rightarrow> dx),
      i_y = (case canvas s of Some (cw, ch) \<Rightarrow> if ch \<noteq> 0 then ch / 2 else dy | None \<Rightarrow> dy),
      i_angle = 0, i_scale = sc,
      i_selected = Some True, i_visible = Some True,
      i_text = None, i_src = Some source,
      i_height = Some imgH, i_radius = None\<rparr>"

text \<open>
  \<open>handleCanvasPaste\<close>, at the moment the pasted image has loaded (the \<open>img.onload\<close>
  callback, the only place where it touches the state).
\<close>

definition handleCanvasPaste :: "AppState \<Rightarrow> string \<Rightarrow> real \<Rightarrow> real \<Rightarrow> string \<Rightarrow> AppState" where
  "handleCanvasPaste s base64 imgW imgH uuid =
     s\<lparr>items := items s @ [imageWidget s uuid base64 imgW imgH 300 300 0.5], mode := MSelect\<rparr>"

text \<open>\<open>handleGenerateTikz\<close>, at the moment the compiled image has loaded.\<close>

definition handleGenerateTikz :: "AppState \<Rightarrow> string \<Rightarrow> real \<Rightarrow> real \<Rightarrow> string \<Rightarrow> AppState" where
  "handleGenerateTikz s fullSrc imgW imgH uuid =
     s\<lparr>items := items s @ [imageWidget s uuid fullSrc imgW imgH 400 300 1]\<rparr>"

subsection \<open>Renderer\<close>

text \<open>
  \<open>renderCanvas\<close> after clearing and the grid (which do not depend on the items): the
  drawing routine called for each item, in order, then the in-progress stroke.
\<close>

datatype DrawCall =
    DrawStroke CanvasItem
  | DrawRuler CanvasItem
  | DrawProtractor CanvasItem
  | DrawSetSquare CanvasItem
  | DrawCompass CanvasItem
  | DrawImageWidget CanvasItem
  | DrawTextWidget CanvasItem

definition renderItem :: "CanvasItem \<Rightarrow> DrawCall list" where
  "renderItem item =
     (if i_visible item = Some False then []
      else if i_type item = Stroke then [DrawStroke item]
      else if i_type item = Ruler then [DrawRuler item]
      else if i_type item = Protractor then [DrawProtractor item]
      else if i_type item = Triangle then [DrawSetSquare item]
      else if i_type item = Compass then [DrawCompass item]
      else if i_type item = ImageT then [DrawImageWidget item]
      else if i_type item = Text then [DrawTextWidget item]
      else [])"

definition renderCanvas :: "AppState \<Rightarrow> DrawCall list" where
  "renderCanvas s =
     concat (map renderItem (items s))
       @ (case currentStroke s of Some cs \<Rightarrow> [DrawStroke cs] | None \<Rightarrow> [])"

text \<open>
  \<open>drawTextWidget\<close> as the list of its canvas operations; \<open>measureText\<close> gives the width
  the context measures for a text.
\<close>

datatype CtxOp =
    Save
  | Translate real real
  | RotateBy real
  | SetFont string
  | SetFillStyle string
  | FillText string real real
  | SetStrokeStyle string
  | StrokeRect real real real real
  | Restore

definition drawTextWidget :: "(string \<Rightarrow> real) \<Rightarrow> CanvasItem \<Rightarrow> CtxOp list" where
  "drawTextWidget measureText t =
     (case i_text t of
        None \<Rightarrow> []
      | Some txt \<Rightarrow>
          (if txt = [] then []
           else
             [Save, Translate (i_x t) (i_y t), RotateBy ((i_angle t * pi) / 180),
              SetFont ''18px sans-serif'',
              SetFillStyle (if i_selected t = Some True then ''#ef4444'' else ''#000''),
              FillText txt 0 0]
             @ (if i_selected t = Some True
                then [SetStrokeStyle ''#ef4444'', StrokeRect (- 5) (- 18) (measureText txt + 10) 24]
                else [])
             @ [Restore]))"

subsection \<open>Events\<close>

text \<open>
  The wiring of the JSX: the canvas's pointer and wheel listeners (\<open>onMouseLeave\<close> is
  \<open>handleMouseUp\<close> as well), the toolbar and property buttons, the window's resize
  listener, the rows of the layer panel (the
  \<open>k\<close>-th row of \<open>widgetItems\<close>; a row that does not exist cannot be clicked) and the
  two image completions. An event that calls \<open>uuidv4()\<close> carries its result.
\<close>

datatype Event =
    MouseDown real real nat string
  | MouseMove real real
  | MouseUp
  | Wheel real
  | SetMode ToolMode
  | PickColor string
  | PickWidth real
  | PickStrokeStyle StrokeStyle
  | ToggleSnap
  | ToggleGrid
  | Resize real real
  | AddWidget ItemType string
  | PanelSelect nat
  | PanelToggle nat
  | PanelDelete nat
  | ClearBoard
  | CanvasPaste string real real string
  | TikzLoaded string real real string

definition onRow :: "AppState \<Rightarrow> nat \<Rightarrow> (AppState \<Rightarrow> string \<Rightarrow> AppState) \<Rightarrow> AppState" where
  "onRow s k h = (if k < length (widgetItems s) then h s (i_id (widgetItems s ! k)) else s)"

fun step :: "AppState \<Rightarrow> Event \<Rightarrow> AppState" where
  "step s (MouseDown x y button uuid) = handleMouseDown s x y button uuid"
| "step s (MouseMove x y) = handleMouseMove s x y"
| "step s MouseUp = handleMouseUp s"
| "step s (Wheel deltaY) = handleWheel s deltaY"
| "step s (SetMode m) = s\<lparr>mode := m\<rparr>"
| "step s (PickColor c) = s\<lparr>color := c\<rparr>"
| "step s (PickWidth w) = s\<lparr>width := w\<rparr>"
| "step s (PickStrokeStyle st) = s\<lparr>strokeStyle := st\<rparr>"
| "step s ToggleSnap = s\<lparr>snap := \<not> snap s\<rparr>"
| "step s ToggleGrid = s\<lparr>grid := \<not> grid s\<rparr>"
| "step s (Resize cw ch) = s\<lparr>canvas := Some (cw, ch)\<rparr>"
| "step s (AddWidget ty uuid) = addWidget s ty uuid"
| "step s (PanelSelect k) = onRow s k panelSelect"
| "step s (PanelToggle k) = onRow s k toggleVisibility"
| "step s (PanelDelete k) = onRow s k deleteItem"
| "step s ClearBoard = clearBoard s"
| "step s (CanvasPaste base64 imgW imgH uuid) = handleCanvasPaste s base64 imgW imgH uuid"
| "step s (TikzLoaded fullSrc imgW imgH uuid) = handleGenerateTikz s fullSrc imgW imgH uuid"

definition run :: "AppState \<Rightarrow> Event list \<Rightarrow> AppState" where
  "run s es = foldl step s es"

text \<open>The state of the first render.\<close>

definition initialState :: AppState where
  "initialState =
     \<lparr>mode = MSelect, color = ''#000000'', width = 4, strokeStyle = Solid,
      items = [], currentStroke = None, snap = True, grid = True, canvas = None,
      isDragging = False, dragType = None, lastPos = \<lparr>p_x = 0, p_y = 0\<rparr>,
      selectedItemId = None, compassPivot = None\<rparr>"

section \<open>Predicates of the statements\<close>

text \<open>
  A compass arc drag on the widget \<open>cid\<close> with the pivot locked at \<open>P\<close>; a point at
  distance \<open>2 \<times> spread = 80\<close> from \<open>N\<close>; an in-progress stroke of \<open>n\<close> points, all at
  that distance from \<open>N\<close>; every item of the store with the id \<open>cid\<close> has its needle
  tip (as \<open>getCompassPoints\<close> computes it) at \<open>N\<close>.
\<close>

definition arcDrag :: "string \<Rightarrow> Point \<Rightarrow> AppState \<Rightarrow> bool" where
  "arcDrag cid P s =
     (isDragging s \<and> dragType s = Some Compass_arc \<and> selectedItemId s = Some cid \<and> cid \<noteq> []
      \<and> compassPivot s = Some P)"

definition onCircle :: "Point \<Rightarrow> Point \<Rightarrow> bool" where
  "onCircle N q = (hypot (p_x q - p_x N) (p_y q - p_y N) = 80)"

definition arcStroke :: "Point \<Rightarrow> nat \<Rightarrow> AppState \<Rightarrow> bool" where
  "arcStroke N n s =
     (case currentStroke s of
        None \<Rightarrow> False
      | Some st \<Rightarrow> length (i_points st) = n \<and> list_all (onCircle N) (i_points st))"

definition needleLocked :: "string \<Rightarrow> Point \<Rightarrow> AppState \<Rightarrow> bool" where
  "needleLocked cid N s =
     list_all (\<lambda>w. i_id w \<noteq> cid \<or> needle (getCompassPoints w) = N) (items s)"



text \<open>
  A hidden item (\<open>visible === false\<close>); a candidate of the pointer-down hit test at
  \<open>(x, y)\<close>: a visible item that is not a stroke, with its pivot less than 100 away.
\<close>

definition isHidden :: "CanvasItem \<Rightarrow> bool" where
  "isHidden item = (i_visible item = Some False)"

definition hitCandidate :: "real \<Rightarrow> real \<Rightarrow> CanvasItem \<Rightarrow> bool" where
  "hitCandidate x y item =
     (\<not> isHidden item \<and> i_type item \<noteq> Stroke \<and> hypot (x - i_x item) (y - i_y item) < 100)"


text \<open>
  What the handlers never rewrite in an item (\<open>strokeData\<close>); the guards under which
  \<open>handleMouseMove\<close> erases, \<open>handleMouseUp\<close> appends the in-progress stroke and
  \<open>addWidget\<close> creates a widget; the items of the store an event keeps and the items it
  appends.
\<close>

definition strokeData ::
  "CanvasItem \<Rightarrow> string \<times> ItemType \<times> Point list \<times> string option \<times> real option \<times> StrokeStyle option" where
  "strokeData i = (i_id i, i_type i, i_points i, i_color i, i_width i, i_strokeStyle i)"

definition sameCore :: "CanvasItem \<Rightarrow> CanvasItem \<Rightarrow> bool" where
  "sameCore i j = (strokeData j = strokeData i)"

definition erasing :: "AppState \<Rightarrow> bool" where
  "erasing s =
     (isDragging s \<and> mode s = MEraser
      \<and> \<not> (dragType s = Some Compass_arc \<and> truthyId (selectedItemId s) \<and> compassPivot s \<noteq> None)
      \<and> \<not> (dragType s = Some Rotate \<and> truthyId (selectedItemId s))
      \<and> \<not> (dragType s = Some Move \<and> truthyId (selectedItemId s)))"

definition finalizes :: "AppState \<Rightarrow> bool" where
  "finalizes s = (currentStroke s \<noteq> None \<and> (dragType s = Some Compass_arc \<or> mode s = MPen))"

definition creates :: "AppState \<Rightarrow> ItemType \<Rightarrow> bool" where
  "creates s ty = (ty \<notin> set singletons \<or> findIndex (\<lambda>i. i_type i = ty) (items s) = None)"

fun kept :: "AppState \<Rightarrow> Event \<Rightarrow> CanvasItem \<Rightarrow> bool" where
  "kept s (MouseMove x y) i = (\<not> erasing s \<or> eraseKeeps x y i)"
| "kept s (PanelDelete k) i = (\<not> k < length (widgetItems s) \<or> i_id i \<noteq> i_id (widgetItems s ! k))"
| "kept s ClearBoard i = False"
| "kept s e i = True"

fun appended :: "AppState \<Rightarrow> Event \<Rightarrow> CanvasItem list" where
  "appended s MouseUp = (if finalizes s then (case currentStroke s of Some cs \<Rightarrow> [cs] | None \<Rightarrow> []) else [])"
| "appended s (AddWidget ty uuid) = (if creates s ty then [newWidget (canvas s) ty uuid] else [])"
| "appended s (CanvasPaste base64 imgW imgH uuid) = [imageWidget s uuid base64 imgW imgH 300 300 0.5]"
| "appended s (TikzLoaded fullSrc imgW imgH uuid) = [imageWidget s uuid fullSrc imgW imgH 400 300 1]"
| "appended s e = []"

text \<open>
  The singleton invariant: the store holds at most one item of each instrument type (and
  the in-progress stroke, if any, is a stroke).
\<close>

definition slotIsStroke :: "AppState \<Rightarrow> bool" where
  "slotIsStroke s = (case currentStroke s of Some c \<Rightarrow> i_type c = Stroke | None \<Rightarrow> True)"

definition countType :: "ItemType \<Rightarrow> CanvasItem list \<Rightarrow> nat" where
  "countType ty its = length (filter (\<lambda>i. i_type i = ty) its)"


text \<open>
  Fresh identifiers. \<open>uuidv4()\<close> never returns an id in use: an event is admissible
  (\<open>eventOk\<close>) when the id it carries is the id of no item of the store and not the id of
  the in-progress stroke, and when \<open>addWidget\<close> gets a widget type. \<open>runOk\<close> says so of
  every event of a run. \<open>storeInv\<close>: the ids of the store and of the in-progress stroke
  are pairwise distinct and the in-progress stroke is a stroke.
\<close>

definition slotId :: "AppState \<Rightarrow> string option" where
  "slotId s = map_option i_id (currentStroke s)"

definition usedIds :: "AppState \<Rightarrow> string list" where
  "usedIds s = map i_id (items s) @ (case slotId s of Some i \<Rightarrow> [i] | None \<Rightarrow> [])"

fun eventOk :: "AppState \<Rightarrow> Event \<Rightarrow> bool" where
  "eventOk s (MouseDown x y button uuid) = (uuid \<notin> set (usedIds s))"
| "eventOk s (AddWidget ty uuid) = (uuid \<notin> set (usedIds s) \<and> ty \<noteq> Stroke)"
| "eventOk s (CanvasPaste base64 imgW imgH uuid) = (uuid \<notin> set (usedIds s))"
| "eventOk s (TikzLoaded fullSrc imgW imgH uuid) = (uuid \<notin> set (usedIds s))"
| "eventOk s e = True"

fun runOk :: "AppState \<Rightarrow> Event list \<Rightarrow> bool" where
  "runOk s [] = True"
| "runOk s (e # es) = (eventOk s e \<and> runOk (step s e) es)"

definition storeInv :: "AppState \<Rightarrow> bool" where
  "storeInv s = (distinct (usedIds s) \<and> slotIsStroke s)"


text \<open>The number of items with \<open>selected = true\<close>.\<close>

definition selectedCount :: "CanvasItem list \<Rightarrow> nat" where
  "selectedCount its = length (filter (\<lambda>i. i_selected i = Some True) its)"

text \<open>
  Double precision. \<open>fl v\<close> is the IEEE 754 binary64 number nearest to the real \<open>v\<close>, ties
  to even: what a JavaScript arithmetic operation returns when its exact result is \<open>v\<close>,
  for results in the normal range (no overflow, no subnormal numbers, no NaN and no signed
  zero). \<open>Math.cos\<close>, \<open>Math.sin\<close> and \<open>Math.atan2\<close> are taken as correctly rounded; the
  statement that uses them needs \<open>cos 0 = 1\<close> and \<open>sin 0 = 0\<close> only, which ECMAScript
  prescribes, and the difference of two equal \<open>atan2\<close> values.

  \<open>convertLocalToWorldD\<close> and \<open>getCompassPointsD\<close> are \<open>convertLocalToWorld\<close> and
  \<open>getCompassPoints\<close> with every operation rounded, in the source's order of evaluation;
  \<open>arcDeltaD\<close> is \<open>deltaAngle\<close> of the compass arc branch of \<open>handleMouseMove\<close> and
  \<open>arcPencilD\<close> the point that branch appends to the stroke (\<open>arcPencil\<close>).
\<close>

definition roundEven :: "real \<Rightarrow> int" where
  "roundEven m =
     (let f = \<lfloor>m\<rfloor>
      in if m - of_int f < 1 / 2 then f
         else if m - of_int f > 1 / 2 then f + 1
         else if even f then f else f + 1)"

definition fl :: "real \<Rightarrow> real" where
  "fl v =
     (if v = 0 then 0
      else (let e = \<lfloor>log 2 \<bar>v\<bar>\<rfloor>;
                u = 2 powi (e - 52)
            in of_int (roundEven (v / u)) * u))"

definition convertLocalToWorldD :: "real \<Rightarrow> real \<Rightarrow> real \<Rightarrow> real \<Rightarrow> real \<Rightarrow> Point" where
  "convertLocalToWorldD lx ly cx cy rad =
     (let c = fl (cos rad);
          s = fl (sin rad);
          wx = fl (fl (fl (lx * c) - fl (ly * s)) + cx);
          wy = fl (fl (fl (lx * s) + fl (ly * c)) + cy)
      in \<lparr>p_x = wx, p_y = wy\<rparr>)"

definition getCompassPointsD :: "CanvasItem \<Rightarrow> CompassPoints" where
  "getCompassPointsD c =
     (let height = orDefault (i_height c) 150;
          spread = 40;
          rad = fl (fl (i_angle c * fl pi) / 180)
      in \<lparr>needle = convertLocalToWorldD (- spread) height (i_x c) (i_y c) rad,
          pencil = convertLocalToWorldD spread height (i_x c) (i_y c) rad\<rparr>)"

definition arcDeltaD :: "Point \<Rightarrow> Point \<Rightarrow> real \<Rightarrow> real \<Rightarrow> real" where
  "arcDeltaD pivot lastP x y =
     (let dx = fl (x - p_x pivot);
          dy = fl (y - p_y pivot);
          mouseAngle = fl (fl (fl (atan2 dy dx) * 180) / fl pi);
          oldDx = fl (p_x lastP - p_x pivot);
          oldDy = fl (p_y lastP - p_y pivot);
          oldAngle = fl (fl (fl (atan2 oldDy oldDx) * 180) / fl pi)
      in fl (mouseAngle - oldAngle))"

definition arcPencilD :: "Point \<Rightarrow> real \<Rightarrow> CanvasItem \<Rightarrow> Point" where
  "arcPencilD pivot deltaAngle currentItem =
     (let newAngle = fl (i_angle currentItem + deltaAngle);
          spread = 40;
          height = orDefault (i_height currentItem) 150;
          rad = fl (fl (newAngle * fl pi) / 180);
          c = fl (cos rad);
          sn = fl (sin rad);
          vX = fl (fl (- spread * c) - fl (height * sn));
          vY = fl (fl (- spread * sn) + fl (height * c));
          newCx = fl (p_x pivot - vX);
          newCy = fl (p_y pivot - vY);
          pX = fl (fl (fl (spread * c) - fl (height * sn)) + newCx);
          pY = fl (fl (fl (spread * sn) + fl (height * c)) + newCy)
      in \<lparr>p_x = pX, p_y = pY\<rparr>)"

section \<open>Geometry kernel: round trip\<close>

lemma cos_sin_sq: "cos t * cos t + sin t * sin t = (1::real)"
  using sin_cos_squared_add2 [of t] by (simp add: power2_eq_square)

lemma rot_back_x: "(a * cos t - b * sin t) * cos t + (a * sin t + b * cos t) * sin t = (a::real)"
proof -
  have "(a * cos t - b * sin t) * cos t + (a * sin t + b * cos t) * sin t
        = a * (cos t * cos t + sin t * sin t)"
    by (simp only: algebra_simps)
  then show ?thesis by (simp only: cos_sin_sq mult_1_right)
qed

lemma rot_back_y: "(a * sin t + b * cos t) * cos t - (a * cos t - b * sin t) * sin t = (b::real)"
proof -
  have "(a * sin t + b * cos t) * cos t - (a * cos t - b * sin t) * sin t
        = b * (cos t * cos t + sin t * sin t)"
    by (simp only: algebra_simps)
  then show ?thesis by (simp only: cos_sin_sq mult_1_right)
qed

text \<open>
  C2. For every pivot \<open>(px, py)\<close>, angle \<open>\<theta>\<close> and local point \<open>(lx, ly)\<close>, the world-to-local
  transform (subtract the pivot, rotate by \<open>-\<theta>\<close>) applied to the local-to-world image of
  the point (rotate by \<open>\<theta>\<close>, add the pivot) gives the point back. Over the reals the
  round trip is exact.
\<close>

theorem worldToLocal_convertLocalToWorld:
  "worldToLocal (p_x (convertLocalToWorld lx ly px py \<theta>)) (p_y (convertLocalToWorld lx ly px py \<theta>)) px py \<theta>
     = \<lparr>p_x = lx, p_y = ly\<rparr>"
  by (simp add: worldToLocal_def convertLocalToWorld_def Let_def rot_back_x rot_back_y)

lemma hypot_0: "hypot a 0 = \<bar>a\<bar>" "hypot 0 a = \<bar>a\<bar>"
  by (simp_all add: hypot_def)

section \<open>Compass arc: pivot lock\<close>

lemma sqrt80: "sqrt (6400 * (cos t * cos t) + 6400 * (sin t * sin t)) = (80::real)"
proof -
  have "6400 * (cos t * cos t) + 6400 * (sin t * sin t) = 6400 * (cos t * cos t + sin t * sin t)"
    by (simp only: distrib_left)
  also have "\<dots> = (80::real)\<^sup>2" by (simp only: cos_sin_sq) simp
  finally show ?thesis by (simp only: real_sqrt_abs)
qed

lemma arcItem_needle:
  "Some (i_id w) = sel \<Longrightarrow> needle (getCompassPoints (arcItem P d sel w)) = P"
  by (simp add: arcItem_def getCompassPoints_def convertLocalToWorld_def Let_def)

lemma arcPencil_dist:
  "hypot (p_x (arcPencil P d ci) - p_x P) (p_y (arcPencil P d ci) - p_y P) = 80"
  by (simp add: arcPencil_def hypot_def Let_def sqrt80)

lemma compass_pencil_dist:
  "hypot (p_x (pencil (getCompassPoints c)) - p_x (needle (getCompassPoints c)))
         (p_y (pencil (getCompassPoints c)) - p_y (needle (getCompassPoints c))) = 80"
  by (simp add: getCompassPoints_def convertLocalToWorld_def hypot_def Let_def sqrt80)

lemma handleMouseMove_arc:
  assumes "arcDrag cid P s"
  shows "\<exists>d. handleMouseMove s x y =
           s\<lparr>items := map (arcItem P d (Some cid)) (items s),
             currentStroke :=
               (case find (\<lambda>i. Some (i_id i) = Some cid) (items s) of
                  None \<Rightarrow> currentStroke s
                | Some ci \<Rightarrow>
                    map_option (\<lambda>prev. prev\<lparr>i_points := i_points prev @ [arcPencil P d ci]\<rparr>)
                      (currentStroke s)),
             lastPos := \<lparr>p_x = x, p_y = y\<rparr>\<rparr>"
  using assms by (auto simp: arcDrag_def handleMouseMove_def truthyId_def Let_def)

lemma arcItem_id: "i_id (arcItem P d sel w) = i_id w"
  by (simp add: arcItem_def Let_def)

lemma arc_step:
  assumes drag: "arcDrag cid P s" and ex: "cid \<in> i_id ` set (items s)" and st: "arcStroke P n s"
  shows "arcDrag cid P (handleMouseMove s x y)
         \<and> map i_id (items (handleMouseMove s x y)) = map i_id (items s)
         \<and> arcStroke P (Suc n) (handleMouseMove s x y)
         \<and> needleLocked cid P (handleMouseMove s x y)"
proof -
  from handleMouseMove_arc [OF drag, of x y] obtain d where
    eq: "handleMouseMove s x y =
           s\<lparr>items := map (arcItem P d (Some cid)) (items s),
             currentStroke :=
               (case find (\<lambda>i. Some (i_id i) = Some cid) (items s) of
                  None \<Rightarrow> currentStroke s
                | Some ci \<Rightarrow>
                    map_option (\<lambda>prev. prev\<lparr>i_points := i_points prev @ [arcPencil P d ci]\<rparr>)
                      (currentStroke s)),
             lastPos := \<lparr>p_x = x, p_y = y\<rparr>\<rparr>" by blast
  from ex obtain ci where f: "find (\<lambda>i. Some (i_id i) = Some cid) (items s) = Some ci"
    by (cases "find (\<lambda>i. Some (i_id i) = Some cid) (items s)") (auto simp: find_None_iff)
  from st obtain st0 where cs: "currentStroke s = Some st0" "length (i_points st0) = n"
      "list_all (onCircle P) (i_points st0)"
    by (auto simp: arcStroke_def split: option.splits)
  have 1: "arcDrag cid P (handleMouseMove s x y)"
    using drag by (simp add: eq arcDrag_def)
  have 2: "map i_id (items (handleMouseMove s x y)) = map i_id (items s)"
    by (simp add: eq arcItem_id comp_def)
  have 3: "arcStroke P (Suc n) (handleMouseMove s x y)"
  proof -
    have f': "find (\<lambda>i. i_id i = cid) (items s) = Some ci" using f by simp
    have "currentStroke (handleMouseMove s x y)
            = Some (st0\<lparr>i_points := i_points st0 @ [arcPencil P d ci]\<rparr>)"
      by (simp add: eq f' cs(1))
    then show ?thesis
      using cs(2,3) by (simp add: arcStroke_def onCircle_def arcPencil_dist)
  qed
  have 4: "needleLocked cid P (handleMouseMove s x y)"
    by (auto simp: eq needleLocked_def list_all_iff arcItem_id arcItem_needle)
  from 1 2 3 4 show ?thesis by blast
qed


lemma run_snoc: "run s (es @ [e]) = step (run s es) e"
  by (simp add: run_def)

lemma arc_run:
  assumes drag: "arcDrag cid P s" and ex: "cid \<in> i_id ` set (items s)" and st: "arcStroke P n s"
  shows "arcDrag cid P (run s (map (\<lambda>(mx, my). MouseMove mx my) ms))
         \<and> map i_id (items (run s (map (\<lambda>(mx, my). MouseMove mx my) ms))) = map i_id (items s)
         \<and> arcStroke P (n + length ms) (run s (map (\<lambda>(mx, my). MouseMove mx my) ms))
         \<and> (ms \<noteq> [] \<longrightarrow> needleLocked cid P (run s (map (\<lambda>(mx, my). MouseMove mx my) ms)))"
proof (induction ms rule: rev_induct)
  case Nil
  show ?case using assms by (simp add: run_def)
next
  case (snoc m ms)
  let ?t = "run s (map (\<lambda>(mx, my). MouseMove mx my) ms)"
  obtain mx my where m: "m = (mx, my)" by (cases m)
  have t: "arcDrag cid P ?t" "map i_id (items ?t) = map i_id (items s)" "arcStroke P (n + length ms) ?t"
    using snoc.IH by blast+
  have "cid \<in> i_id ` set (items ?t)"
    using ex t(2) by (metis set_map)
  from arc_step [OF t(1) this t(3), of mx my] t(2)
  show ?case by (simp add: run_snoc m)
qed

lemma find_Some_mem: "find P as = Some a \<Longrightarrow> a \<in> set as \<and> P a"
  by (induction as) (auto split: if_splits)

lemma hitTest_mem: "hitTest its x y = Some c \<Longrightarrow> c \<in> set its \<and> isHit x y c"
  using find_Some_mem [of "isHit x y" "rev its" c] unfolding hitTest_def by simp

lemma handleMouseDown_arc:
  assumes hit: "hitTest (items s) x y = Some c" and ty: "i_type c = Compass"
    and ne: "i_id c \<noteq> []" and md: "mode s \<noteq> MEraser"
  shows "arcDrag (i_id c) (needle (getCompassPoints c)) (handleMouseDown s x y 2 uuid)
         \<and> map i_id (items (handleMouseDown s x y 2 uuid)) = map i_id (items s)
         \<and> arcStroke (needle (getCompassPoints c)) 1 (handleMouseDown s x y 2 uuid)"
  using assms
  by (simp add: handleMouseDown_def Let_def arcDrag_def arcStroke_def newStroke_def onCircle_def
      compass_pencil_dist comp_def)

lemma handleMouseMove_arc_eq:
  assumes "arcDrag cid P s"
  shows "handleMouseMove s x y =
           s\<lparr>items := map (arcItem P
                 (atan2 (y - p_y P) (x - p_x P) * 180 / pi
                  - atan2 (p_y (lastPos s) - p_y P) (p_x (lastPos s) - p_x P) * 180 / pi)
                 (Some cid)) (items s),
             currentStroke :=
               (case find (\<lambda>i. i_id i = cid) (items s) of
                  None \<Rightarrow> currentStroke s
                | Some ci \<Rightarrow>
                    map_option (\<lambda>prev. prev\<lparr>i_points := i_points prev @ [arcPencil P
                      (atan2 (y - p_y P) (x - p_x P) * 180 / pi
                       - atan2 (p_y (lastPos s) - p_y P) (p_x (lastPos s) - p_x P) * 180 / pi) ci]\<rparr>)
                      (currentStroke s)),
             lastPos := \<lparr>p_x = x, p_y = y\<rparr>\<rparr>"
  using assms by (simp add: arcDrag_def handleMouseMove_def truthyId_def Let_def)

lemma arcPencil_pencil:
  "arcPencil P d ci = pencil (getCompassPoints (arcItem P d (Some (i_id ci)) ci))"
  by (simp add: arcPencil_def arcItem_def getCompassPoints_def convertLocalToWorld_def Let_def)

lemma arcItem_hit:
  "i_id w = cid \<Longrightarrow>
     i_angle (arcItem P d (Some cid) w) = i_angle w + d
     \<and> needle (getCompassPoints (arcItem P d (Some cid) w)) = P
     \<and> (arcItem P d (Some cid) w)\<lparr>i_angle := 0, i_x := 0, i_y := 0\<rparr>
         = w\<lparr>i_angle := 0, i_x := 0, i_y := 0\<rparr>"
  by (simp add: arcItem_needle) (simp add: arcItem_def Let_def)

lemma arcItem_miss: "i_id w \<noteq> cid \<Longrightarrow> arcItem P d (Some cid) w = w"
  by (simp add: arcItem_def)

lemma handleMouseDown_lastPos_right:
  "lastPos (handleMouseDown s x y 2 uuid) = \<lparr>p_x = x, p_y = y\<rparr>"
  by (simp add: handleMouseDown_def Let_def split: option.splits)

lemma arc_sample:
  assumes drag: "arcDrag cid P t" and ex: "cid \<in> i_id ` set (items t)" and st: "arcStroke P n t"
  shows "lastPos (handleMouseMove t mx my) = \<lparr>p_x = mx, p_y = my\<rparr>
     \<and> length (items (handleMouseMove t mx my)) = length (items t)
     \<and> (\<forall>k<length (items t).
           if i_id (items t ! k) = cid
           then i_angle (items (handleMouseMove t mx my) ! k)
                  = i_angle (items t ! k)
                    + (atan2 (my - p_y P) (mx - p_x P) * 180 / pi
                       - atan2 (p_y (lastPos t) - p_y P) (p_x (lastPos t) - p_x P) * 180 / pi)
                \<and> needle (getCompassPoints (items (handleMouseMove t mx my) ! k)) = P
                \<and> (items (handleMouseMove t mx my) ! k)\<lparr>i_angle := 0, i_x := 0, i_y := 0\<rparr>
                    = (items t ! k)\<lparr>i_angle := 0, i_x := 0, i_y := 0\<rparr>
           else items (handleMouseMove t mx my) ! k = items t ! k)
     \<and> (\<exists>st k. currentStroke t = Some st \<and> k < length (items t)
            \<and> i_id (items t ! k) = cid \<and> (\<forall>j<k. i_id (items t ! j) \<noteq> cid)
            \<and> currentStroke (handleMouseMove t mx my)
                = Some (st\<lparr>i_points := i_points st
                     @ [pencil (getCompassPoints (items (handleMouseMove t mx my) ! k))]\<rparr>))"
proof -
  let ?d = "atan2 (my - p_y P) (mx - p_x P) * 180 / pi
            - atan2 (p_y (lastPos t) - p_y P) (p_x (lastPos t) - p_x P) * 180 / pi"
  note eq = handleMouseMove_arc_eq [OF drag, of mx my]
  have it: "items (handleMouseMove t mx my) = map (arcItem P ?d (Some cid)) (items t)"
    by (simp add: eq)
  have 1: "lastPos (handleMouseMove t mx my) = \<lparr>p_x = mx, p_y = my\<rparr>" by (simp add: eq)
  have 2: "length (items (handleMouseMove t mx my)) = length (items t)" by (simp add: it)
  have 3: "\<forall>k<length (items t).
           if i_id (items t ! k) = cid
           then i_angle (items (handleMouseMove t mx my) ! k) = i_angle (items t ! k) + ?d
                \<and> needle (getCompassPoints (items (handleMouseMove t mx my) ! k)) = P
                \<and> (items (handleMouseMove t mx my) ! k)\<lparr>i_angle := 0, i_x := 0, i_y := 0\<rparr>
                    = (items t ! k)\<lparr>i_angle := 0, i_x := 0, i_y := 0\<rparr>
           else items (handleMouseMove t mx my) ! k = items t ! k"
    by (simp add: it arcItem_hit arcItem_miss)
  from ex obtain ci where f: "find (\<lambda>i. i_id i = cid) (items t) = Some ci"
    by (cases "find (\<lambda>i. i_id i = cid) (items t)") (auto simp: find_None_iff)
  then obtain k where k: "k < length (items t)" "i_id (items t ! k) = cid" "ci = items t ! k"
      "\<forall>j<k. i_id (items t ! j) \<noteq> cid"
    by (auto simp: find_Some_iff)
  from st obtain st0 where cs: "currentStroke t = Some st0"
    by (auto simp: arcStroke_def split: option.splits)
  have p: "arcPencil P ?d ci = pencil (getCompassPoints (items (handleMouseMove t mx my) ! k))"
    using k(1,2) by (simp add: it arcPencil_pencil k(3))
  have "currentStroke (handleMouseMove t mx my)
          = Some (st0\<lparr>i_points := i_points st0 @ [arcPencil P ?d ci]\<rparr>)"
    by (simp add: eq f cs)
  then have 4: "\<exists>st k. currentStroke t = Some st \<and> k < length (items t)
            \<and> i_id (items t ! k) = cid \<and> (\<forall>j<k. i_id (items t ! j) \<noteq> cid)
            \<and> currentStroke (handleMouseMove t mx my)
                = Some (st\<lparr>i_points := i_points st
                     @ [pencil (getCompassPoints (items (handleMouseMove t mx my) ! k))]\<rparr>)"
    using cs k(1,2,4) p by auto
  from 1 2 3 4 show ?thesis by (intro conjI)
qed

text \<open>
  C1 (amended). During a compass arc drag, that is after a right-button pointer-down at
  \<open>(x, y)\<close> that hits the compass \<open>c\<close> (in any mode but the eraser, which cancels the drag)
  and any number of pointer-move samples \<open>ms\<close>, the next sample \<open>(mx, my)\<close> takes the state
  \<open>t\<close> to \<open>t'\<close> as follows, \<open>N\<close> being the needle tip of \<open>c\<close> at pointer-down and \<open>d\<close>
  the change, in degrees, of the pointer's \<open>atan2\<close> angle about \<open>N\<close> since the previous
  sample (the pointer-down position for the first sample). The pivot stays locked at \<open>N\<close>
  and the drag goes on. Every item with the compass's id gets the angle \<open>angle + d\<close> and
  a stored \<open>(x, y)\<close> for which the needle tip computed by \<open>getCompassPoints\<close> is \<open>N\<close>; its
  other properties, and every other item, are unchanged. The in-progress stroke gets one
  more point, the pencil tip that \<open>getCompassPoints\<close> computes for the updated compass
  (the first item with the id). All its points, the first pencil point included, are at
  the distance \<open>2 \<times> spread = 80\<close> from \<open>N\<close>. The arithmetic is that of the real numbers:
  in double precision these equalities hold up to rounding only, as the
  example that closes this section shows.
\<close>

theorem compass_arc_pivot_lock:
  assumes hit: "hitTest (items s) x y = Some c" and ty: "i_type c = Compass"
    and ne: "i_id c \<noteq> []" and md: "mode s \<noteq> MEraser"
  shows
    "let N = needle (getCompassPoints c);
         t = run (handleMouseDown s x y 2 uuid) (map (\<lambda>(ax, ay). MouseMove ax ay) ms);
         t' = handleMouseMove t mx my;
         d = atan2 (my - p_y N) (mx - p_x N) * 180 / pi
             - atan2 (p_y (lastPos t) - p_y N) (p_x (lastPos t) - p_x N) * 180 / pi
     in lastPos (handleMouseDown s x y 2 uuid) = \<lparr>p_x = x, p_y = y\<rparr>
        \<and> arcDrag (i_id c) N t \<and> arcDrag (i_id c) N t'
        \<and> lastPos t' = \<lparr>p_x = mx, p_y = my\<rparr>
        \<and> length (items t') = length (items t)
        \<and> (\<forall>k<length (items t).
              if i_id (items t ! k) = i_id c
              then i_angle (items t' ! k) = i_angle (items t ! k) + d
                   \<and> needle (getCompassPoints (items t' ! k)) = N
                   \<and> (items t' ! k)\<lparr>i_angle := 0, i_x := 0, i_y := 0\<rparr>
                       = (items t ! k)\<lparr>i_angle := 0, i_x := 0, i_y := 0\<rparr>
              else items t' ! k = items t ! k)
        \<and> (\<exists>st k. currentStroke t = Some st \<and> k < length (items t)
               \<and> i_id (items t ! k) = i_id c \<and> (\<forall>j<k. i_id (items t ! j) \<noteq> i_id c)
               \<and> currentStroke t'
                   = Some (st\<lparr>i_points := i_points st @ [pencil (getCompassPoints (items t' ! k))]\<rparr>))
        \<and> arcStroke N (length ms + 2) t'
        \<and> needleLocked (i_id c) N t'"
proof -
  let ?N = "needle (getCompassPoints c)"
  let ?ini = "handleMouseDown s x y 2 uuid"
  let ?t = "run ?ini (map (\<lambda>(ax, ay). MouseMove ax ay) ms)"
  from handleMouseDown_arc [OF assms, of uuid]
  have d: "arcDrag (i_id c) ?N ?ini"
    and i: "map i_id (items ?ini) = map i_id (items s)"
    and a: "arcStroke ?N 1 ?ini" by blast+
  have "i_id c \<in> i_id ` set (items s)" using hitTest_mem [OF hit] by blast
  then have m: "i_id c \<in> i_id ` set (items ?ini)" using i by (metis set_map)
  from arc_run [OF d m a, of ms]
  have td: "arcDrag (i_id c) ?N ?t"
    and ti: "map i_id (items ?t) = map i_id (items ?ini)"
    and ta: "arcStroke ?N (1 + length ms) ?t" by blast+
  have tm: "i_id c \<in> i_id ` set (items ?t)" using m ti by (metis set_map)
  from arc_step [OF td tm ta, of mx my]
  have sd: "arcDrag (i_id c) ?N (handleMouseMove ?t mx my)"
    and sa: "arcStroke ?N (length ms + 2) (handleMouseMove ?t mx my)"
    and sn: "needleLocked (i_id c) ?N (handleMouseMove ?t mx my)" by simp_all
  note smp = arc_sample [OF td tm ta, of mx my]
  show ?thesis
    unfolding Let_def
    using handleMouseDown_lastPos_right [of s x y uuid] td sd smp sa sn
    by (intro conjI) blast+
qed


lemma compass_state_items:
  "items (addWidget initialState Compass ''c'') =
     [\<lparr>i_id = ''c'', i_type = Compass, i_points = [], i_color = None, i_width = None,
       i_strokeStyle = None, i_x = 400, i_y = 300, i_angle = 0, i_scale = 1,
       i_selected = Some True, i_visible = Some True, i_text = None, i_src = None,
       i_height = Some 150, i_radius = None\<rparr>]"
  by (simp add: addWidget_def newWidget_def initialState_def singletons_def defaultWidth_def
      defaultHeight_def defaultRadius_def)

lemma compass_state_mode: "mode (addWidget initialState Compass ''c'') = MSelect"
  by (simp add: addWidget_def initialState_def singletons_def)

theorem compass_arc_pivot_lock_witness:
  "hitTest (items (addWidget initialState Compass ''c'')) 400 300 =
     Some (hd (items (addWidget initialState Compass ''c'')))
   \<and> i_type (hd (items (addWidget initialState Compass ''c''))) = Compass
   \<and> i_id (hd (items (addWidget initialState Compass ''c''))) = ''c''
   \<and> mode (addWidget initialState Compass ''c'') = MSelect
   \<and> needle (getCompassPoints (hd (items (addWidget initialState Compass ''c''))))
       = \<lparr>p_x = 360, p_y = 450\<rparr>
   \<and> lastPos (handleMouseMove
         (run (handleMouseDown (addWidget initialState Compass ''c'') 400 300 2 ''u'')
            [MouseMove 410 300]) 420 310) = \<lparr>p_x = 420, p_y = 310\<rparr>
   \<and> needleLocked ''c'' \<lparr>p_x = 360, p_y = 450\<rparr>
       (handleMouseMove
         (run (handleMouseDown (addWidget initialState Compass ''c'') 400 300 2 ''u'')
            [MouseMove 410 300]) 420 310)
   \<and> arcStroke \<lparr>p_x = 360, p_y = 450\<rparr> 3
       (handleMouseMove
         (run (handleMouseDown (addWidget initialState Compass ''c'') 400 300 2 ''u'')
            [MouseMove 410 300]) 420 310)"
proof -
  let ?s = "addWidget initialState Compass ''c''"
  let ?c = "hd (items ?s)"
  let ?t = "handleMouseMove (run (handleMouseDown ?s 400 300 2 ''u'') [MouseMove 410 300]) 420 310"
  have h1: "hitTest (items ?s) 400 300 = Some ?c"
    by (simp add: compass_state_items hitTest_def isHit_def hypot_def)
  have h2: "i_type ?c = Compass" by (simp add: compass_state_items)
  have h3: "i_id ?c \<noteq> []" by (simp add: compass_state_items)
  have h4: "mode ?s \<noteq> MEraser" by (simp add: compass_state_mode)
  have n: "needle (getCompassPoints ?c) = \<lparr>p_x = 360, p_y = 450\<rparr>"
    by (simp add: compass_state_items getCompassPoints_def convertLocalToWorld_def orDefault_def)
  have i: "i_id ?c = ''c''" by (simp add: compass_state_items)
  note th = compass_arc_pivot_lock [OF h1 h2 h3 h4, of "''u''" "[(410, 300)]" 420 310,
      unfolded Let_def]
  from th have a: "lastPos ?t = \<lparr>p_x = 420, p_y = 310\<rparr>" by simp
  from th have b: "needleLocked (i_id ?c) (needle (getCompassPoints ?c)) ?t" by simp
  from th have c: "arcStroke (needle (getCompassPoints ?c)) (length [(410::real, 300::real)] + 2) ?t"
    by simp
  from b have b': "needleLocked ''c'' \<lparr>p_x = 360, p_y = 450\<rparr> ?t" by (simp only: n i)
  from c have c': "arcStroke \<lparr>p_x = 360, p_y = 450\<rparr> 3 ?t"
    by (simp only: n) (simp add: numeral_3_eq_3)
  from h1 h2 i compass_state_mode n a b' c' show ?thesis by (intro conjI)
qed

subsection \<open>The same step in double precision\<close>

lemma fl_0 [simp]: "fl 0 = 0"
  by (simp add: fl_def)

lemma roundEven_int: "roundEven (of_int k) = k"
  by (simp add: roundEven_def)

lemma roundEven_half: "roundEven (of_int k + 1 / 2) = (if even k then k else k + 1)"
proof -
  have "\<lfloor>of_int k + (1 / 2 :: real)\<rfloor> = k" by (simp add: floor_eq_iff)
  then show ?thesis by (simp add: roundEven_def)
qed

lemma exponent_eq:
  assumes "2 ^ 52 * 2 powi (e - 52) \<le> \<bar>v\<bar>" "\<bar>v\<bar> < 2 ^ 53 * 2 powi (e - 52)"
  shows "\<lfloor>log 2 \<bar>v\<bar>\<rfloor> = e"
proof -
  have a: "(2::real) powi e = 2 ^ 52 * 2 powi (e - 52)"
    using power_int_add [of "2::real" 52 "e - 52"] by simp
  have b: "(2::real) powi (e + 1) = 2 ^ 53 * 2 powi (e - 52)"
    using power_int_add [of "2::real" 53 "e - 52"] by (simp add: add.commute)
  have "(0::real) < 2 ^ 52 * 2 powi (e - 52)" by simp
  with assms(1) have p: "0 < \<bar>v\<bar>" by linarith
  have pe: "2 powr (real_of_int e) = (2::real) powi e"
    by (simp add: powr_real_of_int')
  have pe1: "2 powr (real_of_int e + 1) = (2::real) powi (e + 1)"
    using powr_real_of_int' [of "2::real" "e + 1"] by simp
  have "2 powr (real_of_int e) \<le> \<bar>v\<bar> \<and> \<bar>v\<bar> < 2 powr (real_of_int e + 1)"
    using assms by (simp only: pe pe1 a b)
  then show ?thesis using p floor_log_eq_powr_iff [of "\<bar>v\<bar>" 2 e] by simp
qed

lemma fl_rep:
  assumes v: "v = of_int k * 2 powi (e - 52)" and k: "2 ^ 52 \<le> \<bar>k\<bar>" "\<bar>k\<bar> < 2 ^ 53"
  shows "fl v = v"
proof -
  have u: "(0::real) < 2 powi (e - 52)" by simp
  have av: "\<bar>v\<bar> = of_int \<bar>k\<bar> * 2 powi (e - 52)" by (simp add: v abs_mult)
  have "real_of_int (2 ^ 52) \<le> of_int \<bar>k\<bar>" "real_of_int \<bar>k\<bar> < of_int (2 ^ 53)"
    using k by (simp_all only: of_int_le_iff of_int_less_iff)
  then have "(2::real) ^ 52 \<le> of_int \<bar>k\<bar>" "of_int \<bar>k\<bar> < (2::real) ^ 53"
    by simp_all
  then have "2 ^ 52 * 2 powi (e - 52) \<le> \<bar>v\<bar>" "\<bar>v\<bar> < 2 ^ 53 * 2 powi (e - 52)"
    using u by (simp_all add: av)
  then have e: "\<lfloor>log 2 \<bar>v\<bar>\<rfloor> = e" by (rule exponent_eq)
  have nz: "v \<noteq> 0" using k(1) v by auto
  have d: "v / 2 powi (e - 52) = of_int k" using u by (simp add: v)
  have "fl v = of_int (roundEven (v / 2 powi (e - 52))) * 2 powi (e - 52)"
    using nz by (simp only: fl_def e Let_def if_False)
  also have "\<dots> = of_int k * 2 powi (e - 52)" by (simp only: d roundEven_int)
  finally show ?thesis by (simp only: v)
qed

lemma fl_tie:
  assumes v: "v = (of_int k + 1 / 2) * 2 powi (e - 52)" and k: "2 ^ 52 \<le> k" "k < 2 ^ 53"
  shows "fl v = of_int (if even k then k else k + 1) * 2 powi (e - 52)"
proof -
  have u: "(0::real) < 2 powi (e - 52)" by simp
  from k have "2 ^ 52 \<le> k" "k + 1 \<le> 2 ^ 53" by simp_all
  then have "real_of_int (2 ^ 52) \<le> of_int k" "real_of_int (k + 1) \<le> of_int (2 ^ 53)"
    by (simp_all only: of_int_le_iff)
  then have kk: "(2::real) ^ 52 \<le> of_int k" "of_int k + 1 \<le> (2::real) ^ 53"
    by simp_all
  have pos: "0 < v" using kk(1) u by (simp add: v zero_less_mult_iff)
  have av: "\<bar>v\<bar> = (of_int k + 1 / 2) * 2 powi (e - 52)" using pos by (simp add: v)
  have "2 ^ 52 * 2 powi (e - 52) \<le> \<bar>v\<bar>" "\<bar>v\<bar> < 2 ^ 53 * 2 powi (e - 52)"
    using u kk by (simp_all add: av)
  then have e: "\<lfloor>log 2 \<bar>v\<bar>\<rfloor> = e" by (rule exponent_eq)
  have d: "v / 2 powi (e - 52) = of_int k + 1 / 2" using u by (simp add: v)
  have nz: "v \<noteq> 0" using pos by simp
  have "fl v = of_int (roundEven (v / 2 powi (e - 52))) * 2 powi (e - 52)"
    using nz by (simp only: fl_def e Let_def if_False)
  then show ?thesis by (simp only: d roundEven_half)
qed

lemma fl_1: "fl (1) = 1"
  by (rule fl_rep [of _ "4503599627370496" 0]) simp_all

lemma fl_40: "fl (40) = 40"
  by (rule fl_rep [of _ "5629499534213120" 5]) simp_all

lemma fl_m40: "fl (- 40) = - 40"
  by (rule fl_rep [of _ "- 5629499534213120" 5]) simp_all

lemma fl_150: "fl (150) = 150"
  by (rule fl_rep [of _ "5277655813324800" 7]) simp_all

lemma fl_300: "fl (300) = 300"
  by (rule fl_rep [of _ "5277655813324800" 8]) simp_all

lemma fl_450: "fl (450) = 450"
  by (rule fl_rep [of _ "7916483719987200" 8]) simp_all

lemma fl_cx: "fl (8307030250173235 / 17592186044416) = 8307030250173235 / 17592186044416"
  by (rule fl_rep [of _ "8307030250173235" 8]) simp_all

lemma fl_nx: "fl (7603342808396595 / 17592186044416) = 7603342808396595 / 17592186044416"
  by (rule fl_rep [of _ "7603342808396595" 8]) simp_all

lemmas fl_vals = fl_1 fl_40 fl_m40 fl_150 fl_300 fl_450 fl_cx fl_nx

lemma fl_tie_val:
  "fl (9010717691949875 / 17592186044416) = 4505358845974938 / 8796093022208"
  using fl_tie [of "9010717691949875 / 17592186044416" 4505358845974937 9] by simp

text \<open>
  C1, as first stated with a distance of exactly 80: in double precision the distance of
  an appended point from the pivot is not always exactly 80. The default compass (height 150, angle 0) at \<open>x = 472.2\<close>, that is
  the double \<open>8307030250173235 / 2^44\<close>, and \<open>y = 300\<close>: pointer-down locks the pivot at the
  needle tip \<open>(432.2, 450)\<close>, exactly \<open>7603342808396595 / 2^44\<close>. A pointer-move sample at
  the position of the previous one gives \<open>deltaAngle = 0\<close>, so \<open>cos = 1\<close> and \<open>sin = 0\<close>
  exactly; \<open>newCx\<close> is \<open>472.2\<close> again and \<open>pX = 40 + newCx\<close> is rounded (a tie, to even) to
  \<open>4505358845974938 / 2^43\<close>. The appended point is level with the needle tip and at the
  distance \<open>80 + 2^-44\<close> from it. The first point of the stroke, the pencil tip at
  pointer-down, is the same point.
\<close>

theorem compass_arc_double_rounding:
  "needle (getCompassPointsD ((newWidget None Compass ''c'')\<lparr>i_x := 8307030250173235 / 17592186044416\<rparr>))
     = \<lparr>p_x = 7603342808396595 / 17592186044416, p_y = 450\<rparr>
   \<and> arcDeltaD \<lparr>p_x = 7603342808396595 / 17592186044416, p_y = 450\<rparr> \<lparr>p_x = 500, p_y = 300\<rparr> 500 300 = 0
   \<and> arcPencilD \<lparr>p_x = 7603342808396595 / 17592186044416, p_y = 450\<rparr> 0
        ((newWidget None Compass ''c'')\<lparr>i_x := 8307030250173235 / 17592186044416\<rparr>)
     = \<lparr>p_x = 4505358845974938 / 8796093022208, p_y = 450\<rparr>
   \<and> pencil (getCompassPointsD ((newWidget None Compass ''c'')\<lparr>i_x := 8307030250173235 / 17592186044416\<rparr>))
     = \<lparr>p_x = 4505358845974938 / 8796093022208, p_y = 450\<rparr>
   \<and> hypot (4505358845974938 / 8796093022208 - 7603342808396595 / 17592186044416) (450 - 450)
     = 80 + 1 / 17592186044416
   \<and> hypot
        (p_x (arcPencilD
                (needle (getCompassPointsD ((newWidget None Compass ''c'')\<lparr>i_x := 8307030250173235 / 17592186044416\<rparr>)))
                (arcDeltaD
                   (needle (getCompassPointsD ((newWidget None Compass ''c'')\<lparr>i_x := 8307030250173235 / 17592186044416\<rparr>)))
                   \<lparr>p_x = 500, p_y = 300\<rparr> 500 300)
                ((newWidget None Compass ''c'')\<lparr>i_x := 8307030250173235 / 17592186044416\<rparr>))
         - p_x (needle (getCompassPointsD ((newWidget None Compass ''c'')\<lparr>i_x := 8307030250173235 / 17592186044416\<rparr>))))
        (p_y (arcPencilD
                (needle (getCompassPointsD ((newWidget None Compass ''c'')\<lparr>i_x := 8307030250173235 / 17592186044416\<rparr>)))
                (arcDeltaD
                   (needle (getCompassPointsD ((newWidget None Compass ''c'')\<lparr>i_x := 8307030250173235 / 17592186044416\<rparr>)))
                   \<lparr>p_x = 500, p_y = 300\<rparr> 500 300)
                ((newWidget None Compass ''c'')\<lparr>i_x := 8307030250173235 / 17592186044416\<rparr>))
         - p_y (needle (getCompassPointsD ((newWidget None Compass ''c'')\<lparr>i_x := 8307030250173235 / 17592186044416\<rparr>))))
     \<noteq> 80"
proof -
  let ?C = "(newWidget None Compass ''c'')\<lparr>i_x := 8307030250173235 / 17592186044416\<rparr>"
  let ?N = "\<lparr>p_x = 7603342808396595 / 17592186044416, p_y = 450\<rparr>"
  have c: "i_x ?C = 8307030250173235 / 17592186044416" "i_y ?C = 300" "i_angle ?C = 0"
      "i_height ?C = Some 150"
    by (simp_all add: newWidget_def defaultHeight_def)
  have n: "needle (getCompassPointsD ?C) = ?N"
    by (simp add: getCompassPointsD_def convertLocalToWorldD_def c orDefault_def fl_vals)
  have d: "arcDeltaD ?N \<lparr>p_x = 500, p_y = 300\<rparr> 500 300 = 0"
    by (simp add: arcDeltaD_def Let_def)
  have p: "arcPencilD ?N 0 ?C = \<lparr>p_x = 4505358845974938 / 8796093022208, p_y = 450\<rparr>"
    by (simp add: arcPencilD_def c orDefault_def fl_vals fl_tie_val)
  have q: "pencil (getCompassPointsD ?C) = \<lparr>p_x = 4505358845974938 / 8796093022208, p_y = 450\<rparr>"
    by (simp add: getCompassPointsD_def convertLocalToWorldD_def c orDefault_def fl_vals fl_tie_val)
  have h: "hypot (4505358845974938 / 8796093022208 - 7603342808396595 / 17592186044416) (450 - 450)
     = 80 + 1 / 17592186044416"
    by (simp add: hypot_0)
  show ?thesis
    by (simp only: n d p q h Point.simps) simp
qed

section \<open>Snapping to a ruler\<close>










section \<open>Hit test\<close>

lemma isHit_candidate: "isHit x y = hitCandidate x y"
  by (rule ext) (simp add: isHit_def hitCandidate_def isHidden_def Let_def)

lemma find_rev_last:
  "find P (rev as) = (if filter P as = [] then None else Some (last (filter P as)))"
  by (induction as rule: rev_induct) auto

lemma hitTest_last:
  "hitTest its x y =
     (if filter (hitCandidate x y) its = [] then None
      else Some (last (filter (hitCandidate x y) its)))"
  by (simp add: hitTest_def find_rev_last isHit_candidate)




section \<open>What an event does to the store\<close>

lemma map_sameCore: "(\<And>i. sameCore i (f i)) \<Longrightarrow> list_all2 sameCore as (map f as)"
  by (simp add: list_all2_conv_all_nth)

lemma mapIdx_sameCore: "(\<And>i k. sameCore i (f i k)) \<Longrightarrow> list_all2 sameCore as (mapIdx f as)"
  by (simp add: list_all2_conv_all_nth mapIdx_def nth_enumerate_eq)

lemma sameCore_refl: "list_all2 sameCore as as"
  by (simp add: list_all2_conv_all_nth sameCore_def)

lemma sameCore_upd [simp]:
  "sameCore i (i\<lparr>i_selected := a\<rparr>)"
  "sameCore i (i\<lparr>i_visible := b\<rparr>)"
  "sameCore i (i\<lparr>i_visible := b, i_selected := a\<rparr>)"
  "sameCore i (i\<lparr>i_angle := c\<rparr>)"
  "sameCore i (i\<lparr>i_x := d, i_y := e\<rparr>)"
  "sameCore i (i\<lparr>i_angle := c, i_x := d, i_y := e\<rparr>)"
  "sameCore i i"
  by (simp_all add: sameCore_def strokeData_def)

lemma sameCore_arcItem [simp]: "sameCore i (arcItem P d sel i)"
  by (simp add: arcItem_def Let_def)

lemma handleMouseDown_items:
  "items (handleMouseDown s x y b u) =
     (case hitTest (items s) x y of
        Some c \<Rightarrow> map (\<lambda>i. i\<lparr>i_selected := Some (i_id i = i_id c)\<rparr>) (items s)
      | None \<Rightarrow> if mode s = MSelect then map (\<lambda>i. i\<lparr>i_selected := Some False\<rparr>) (items s)
                else items s)"
  by (simp add: handleMouseDown_def Let_def split: option.splits)

lemma handleMouseDown_core: "list_all2 sameCore (items s) (items (handleMouseDown s x y b u))"
  by (simp add: handleMouseDown_items map_sameCore sameCore_refl split: option.splits)

lemma handleMouseMove_erasing:
  "erasing s \<Longrightarrow> items (handleMouseMove s x y) = filter (eraseKeeps x y) (items s)"
  by (auto simp: handleMouseMove_def erasing_def Let_def)

lemma handleMouseMove_core:
  "\<not> erasing s \<Longrightarrow> list_all2 sameCore (items s) (items (handleMouseMove s x y))"
  by (auto simp: handleMouseMove_def erasing_def Let_def sameCore_refl intro!: map_sameCore
      split: option.splits)

lemma handleMouseUp_items: "items (handleMouseUp s) = items s @ appended s MouseUp"
  by (auto simp: handleMouseUp_def finalizes_def Let_def split: option.splits)

lemma handleWheel_core: "list_all2 sameCore (items s) (items (handleWheel s d))"
  by (auto simp: handleWheel_def Let_def sameCore_refl intro!: map_sameCore)

lemma addWidget_items:
  "\<exists>body. items (addWidget s ty u) = body @ appended s (AddWidget ty u)
          \<and> list_all2 sameCore (items s) body"
proof (cases "creates s ty")
  case True
  then have "items (addWidget s ty u) =
      map (\<lambda>i. i\<lparr>i_selected := Some False\<rparr>) (items s) @ [newWidget (canvas s) ty u]"
    by (auto simp: addWidget_def creates_def Let_def)
  with True show ?thesis by (simp add: map_sameCore)
next
  case False
  then obtain k where k: "ty \<in> set singletons" "findIndex (\<lambda>i. i_type i = ty) (items s) = Some k"
    by (auto simp: creates_def)
  then have "\<exists>f. items (addWidget s ty u) = mapIdx f (items s) \<and> (\<forall>i n. sameCore i (f i n))"
    by (auto simp: addWidget_def Let_def intro!: exI)
  then obtain f where "items (addWidget s ty u) = mapIdx f (items s)" "\<And>i n. sameCore i (f i n)"
    by blast
  with False show ?thesis by (simp add: mapIdx_sameCore)
qed

lemma onRow_core:
  "(\<And>t w. list_all2 sameCore (items t) (items (h t w))) \<Longrightarrow>
   list_all2 sameCore (items s) (items (onRow s k h))"
  by (simp add: onRow_def sameCore_refl)

lemma panelSelect_core: "list_all2 sameCore (items s) (items (panelSelect s w))"
  by (simp add: panelSelect_def map_sameCore)

lemma toggleVisibility_core: "list_all2 sameCore (items s) (items (toggleVisibility s w))"
  by (simp add: toggleVisibility_def map_sameCore)

lemma kept_MouseMove: "kept s (MouseMove x y) = (\<lambda>i. \<not> erasing s \<or> eraseKeeps x y i)"
  by (rule ext) simp

lemma kept_PanelDelete:
  "kept s (PanelDelete k) = (\<lambda>i. \<not> k < length (widgetItems s) \<or> i_id i \<noteq> i_id (widgetItems s ! k))"
  by (rule ext) simp

lemma panelDelete_items:
  "items (onRow s k deleteItem) = filter (kept s (PanelDelete k)) (items s)"
  by (simp add: onRow_def deleteItem_def kept_PanelDelete)

lemma step_effect:
  "\<exists>body. items (step s e) = body @ appended s e
          \<and> list_all2 sameCore (filter (kept s e) (items s)) body"
proof (cases e)
  case (MouseDown x y b u)
  then show ?thesis by (simp add: handleMouseDown_core)
next
  case (MouseMove x y)
  then show ?thesis
    by (cases "erasing s")
      (simp_all add: handleMouseMove_erasing handleMouseMove_core sameCore_refl kept_MouseMove)
next
  case MouseUp
  then show ?thesis by (simp add: handleMouseUp_items sameCore_refl del: appended.simps)
next
  case (Wheel d)
  then show ?thesis by (simp add: handleWheel_core)
next
  case (AddWidget ty u)
  then show ?thesis using addWidget_items [of s ty u] by (simp del: appended.simps)
next
  case (PanelSelect k)
  then show ?thesis by (simp add: onRow_core panelSelect_core)
next
  case (PanelToggle k)
  then show ?thesis by (simp add: onRow_core toggleVisibility_core)
next
  case (PanelDelete k)
  then show ?thesis by (simp add: panelDelete_items sameCore_refl del: kept.simps)
next
  case (CanvasPaste b w h u)
  then show ?thesis by (simp add: handleCanvasPaste_def sameCore_refl)
next
  case (TikzLoaded b w h u)
  then show ?thesis by (simp add: handleGenerateTikz_def sameCore_refl)
qed (simp_all add: sameCore_refl clearBoard_def)

section \<open>Hidden widgets\<close>

lemma hitCandidate_visible: "hitCandidate x y i \<Longrightarrow> \<not> isHidden i"
  by (simp add: hitCandidate_def)

lemma filter_hit_visible:
  "filter (hitCandidate x y) (filter (\<lambda>i. \<not> isHidden i) its) = filter (hitCandidate x y) its"
  by (induction its) (auto simp: hitCandidate_def)

lemma hitTest_visible: "hitTest its x y = hitTest (filter (\<lambda>i. \<not> isHidden i) its) x y"
  by (simp only: hitTest_last filter_hit_visible)

lemma snapItem_hidden: "isHidden i \<Longrightarrow> snapItem x y i thr = None"
  by (simp add: snapItem_def isHidden_def)

lemma getSnapPoint_visible:
  "getSnapPoint x y its thr = getSnapPoint x y (filter (\<lambda>i. \<not> isHidden i) its) thr"
  by (induction its) (auto simp: snapItem_hidden split: option.splits)

lemma renderItem_hidden: "isHidden i \<Longrightarrow> renderItem i = []"
  by (simp add: renderItem_def isHidden_def)

lemma renderItems_visible:
  "concat (map renderItem its) = concat (map renderItem (filter (\<lambda>i. \<not> isHidden i) its))"
  by (induction its) (simp_all add: renderItem_hidden)

lemma renderCanvas_visible:
  "renderCanvas s = renderCanvas (s\<lparr>items := filter (\<lambda>i. \<not> isHidden i) (items s)\<rparr>)"
  using renderItems_visible [of "items s"] by (simp add: renderCanvas_def)

lemma hitTest_not_hidden: "isHidden h \<Longrightarrow> hitTest its x y \<noteq> Some h"
  using hitTest_mem [of its x y h] by (auto simp: isHit_candidate hitCandidate_def)

lemma eraseKeeps_hidden: "isHidden i \<Longrightarrow> eraseKeeps x y i"
  by (simp add: eraseKeeps_def isHidden_def)

lemma sameCore_id_type: "sameCore i j \<Longrightarrow> i_id j = i_id i \<and> i_type j = i_type i"
  by (simp add: sameCore_def strokeData_def)

lemma list_all2_mem_left:
  "list_all2 R as bs \<Longrightarrow> a \<in> set as \<Longrightarrow> \<exists>b\<in>set bs. R a b"
  by (induction rule: list_all2_induct) auto

lemma list_all2_mem_right:
  "list_all2 R as bs \<Longrightarrow> b \<in> set bs \<Longrightarrow> \<exists>a\<in>set as. R a b"
  by (induction rule: list_all2_induct) auto

lemma kept_survives:
  assumes "i \<in> set (items s)" "kept s e i"
  shows "\<exists>j\<in>set (items (step s e)). sameCore i j"
proof -
  from step_effect [of s e] obtain body where
    b: "items (step s e) = body @ appended s e"
       "list_all2 sameCore (filter (kept s e) (items s)) body" by blast
  from assms have "i \<in> set (filter (kept s e) (items s))" by simp
  from list_all2_mem_left [OF b(2) this] show ?thesis by (auto simp: b(1))
qed

lemma hidden_kept:
  assumes "isHidden h" "e \<noteq> ClearBoard" "\<forall>k. e \<noteq> PanelDelete k"
  shows "kept s e h"
  using assms by (cases e) (simp_all add: eraseKeeps_hidden)

text \<open>
  C6. Hidden items (\<open>visible = false\<close>) do not take part in the hit test, in
  \<open>getSnapPoint\<close> or in rendering: each gives the result it gives on the store without
  them, a hidden item is never the hit, never yields a snap point and is drawn by no
  routine. Yet the store keeps it: after any event other than the clear-board button and
  a delete button of the layer panel, the store still holds an item of its id and type.
\<close>

theorem hidden_widget_excluded_but_kept:
  "hitTest (items s) x y = hitTest (filter (\<lambda>i. \<not> isHidden i) (items s)) x y
   \<and> getSnapPoint x y (items s) thr = getSnapPoint x y (filter (\<lambda>i. \<not> isHidden i) (items s)) thr
   \<and> renderCanvas s = renderCanvas (s\<lparr>items := filter (\<lambda>i. \<not> isHidden i) (items s)\<rparr>)
   \<and> (\<forall>h\<in>set (items s). isHidden h \<longrightarrow>
        hitTest (items s) x y \<noteq> Some h \<and> snapItem x y h thr = None \<and> renderItem h = []
        \<and> (e \<noteq> ClearBoard \<and> (\<forall>k. e \<noteq> PanelDelete k) \<longrightarrow>
             (\<exists>j\<in>set (items (step s e)). i_id j = i_id h \<and> i_type j = i_type h)))"
proof -
  have "\<exists>j\<in>set (items (step s e)). i_id j = i_id h \<and> i_type j = i_type h"
    if "h \<in> set (items s)" "isHidden h" "e \<noteq> ClearBoard" "\<forall>k. e \<noteq> PanelDelete k" for h
    using kept_survives [OF that(1) hidden_kept [OF that(2,3,4)]] sameCore_id_type by blast
  then have 4: "\<forall>h\<in>set (items s). isHidden h \<longrightarrow>
        hitTest (items s) x y \<noteq> Some h \<and> snapItem x y h thr = None \<and> renderItem h = []
        \<and> (e \<noteq> ClearBoard \<and> (\<forall>k. e \<noteq> PanelDelete k) \<longrightarrow>
             (\<exists>j\<in>set (items (step s e)). i_id j = i_id h \<and> i_type j = i_type h))"
    by (simp add: hitTest_not_hidden snapItem_hidden renderItem_hidden)
  show ?thesis
    by (intro conjI hitTest_visible getSnapPoint_visible renderCanvas_visible 4)
qed

lemma hidden_ruler_items:
  "items (addWidget (addWidget initialState Ruler ''r'') Ruler ''q'') =
     [\<lparr>i_id = ''r'', i_type = Ruler, i_points = [], i_color = None, i_width = Some 400,
       i_strokeStyle = None, i_x = 400, i_y = 300, i_angle = 0, i_scale = 1,
       i_selected = Some False, i_visible = Some False, i_text = None, i_src = None,
       i_height = Some 50, i_radius = None\<rparr>]"
  by (simp add: addWidget_def newWidget_def initialState_def singletons_def defaultWidth_def
      defaultHeight_def defaultRadius_def mapIdx_def enumerate_eq_zip)

theorem hidden_widget_excluded_but_kept_witness:
  "isHidden (hd (items (addWidget (addWidget initialState Ruler ''r'') Ruler ''q'')))
   \<and> hitTest (items (addWidget (addWidget initialState Ruler ''r'') Ruler ''q'')) 400 300 = None
   \<and> getSnapPoint 400 275 (items (addWidget (addWidget initialState Ruler ''r'') Ruler ''q'')) 20 = None
   \<and> renderCanvas (addWidget (addWidget initialState Ruler ''r'') Ruler ''q'') = []
   \<and> map i_id (items (step (addWidget (addWidget initialState Ruler ''r'') Ruler ''q'')
                          (MouseDown 400 300 0 ''u''))) = [''r'']"
proof -
  let ?s = "addWidget (addWidget initialState Ruler ''r'') Ruler ''q''"
  have h: "isHidden (hd (items ?s))" by (simp add: hidden_ruler_items isHidden_def)
  have f: "filter (\<lambda>i. \<not> isHidden i) (items ?s) = []"
    by (simp add: hidden_ruler_items isHidden_def)
  have cs: "currentStroke ?s = None"
    by (simp add: addWidget_def newWidget_def initialState_def singletons_def Let_def)
  note th = hidden_widget_excluded_but_kept [of ?s 400 300 20 "MouseDown 400 300 0 ''u''"]
  from th have a: "hitTest (items ?s) 400 300 = None"
    by (simp only: f) (simp add: hitTest_def)
  from hidden_widget_excluded_but_kept [of ?s 400 275 20 "MouseDown 400 300 0 ''u''"]
  have b: "getSnapPoint 400 275 (items ?s) 20 = None"
    by (simp only: f) simp
  from th have c: "renderCanvas ?s = []"
    by (simp only: f) (simp add: renderCanvas_def cs)
  have m: "mode ?s = MSelect"
    by (simp add: addWidget_def newWidget_def initialState_def singletons_def Let_def)
  have "items (step ?s (MouseDown 400 300 0 ''u'')) =
          map (\<lambda>i. i\<lparr>i_selected := Some False\<rparr>) (items ?s)"
    by (simp only: step.simps handleMouseDown_items a m option.case refl if_True)
  then have d: "map i_id (items (step ?s (MouseDown 400 300 0 ''u''))) = [''r'']"
    by (simp add: hidden_ruler_items)
  from h a b c d show ?thesis by blast
qed

section \<open>Eraser\<close>

lemma eraseKeeps_iff:
  "eraseKeeps x y i =
     (\<not> (\<not> isHidden i \<and> i_type i = Stroke
          \<and> (\<exists>p\<in>set (i_points i). hypot (p_x p - x) (p_y p - y) < 20)))"
  by (auto simp: eraseKeeps_def isHidden_def list_ex_iff)

lemma handleMouseDown_eraser:
  "mode s = MEraser \<Longrightarrow>
     isDragging (handleMouseDown s x y b u) \<and> mode (handleMouseDown s x y b u) = MEraser
     \<and> dragType (handleMouseDown s x y b u) = None"
  by (simp add: handleMouseDown_def Let_def split: option.splits)

text \<open>
  C7. An eraser-mode move at the cursor \<open>(x, y)\<close> (the button is held, the mode is the
  eraser and there is no drag kind, as pointer-down in eraser mode leaves it) removes from the
  store exactly the visible strokes with a point at a distance less than 20 from the
  cursor. Every other item (every widget, every hidden item, every stroke with no such
  point) stays, unchanged and in the same order.
\<close>

theorem eraser_removes_touched_strokes:
  assumes "isDragging s" "mode s = MEraser" "dragType s = None"
  shows "items (handleMouseMove s x y) =
           filter (\<lambda>i. \<not> (\<not> isHidden i \<and> i_type i = Stroke
                            \<and> (\<exists>p\<in>set (i_points i). hypot (p_x p - x) (p_y p - y) < 20)))
             (items s)"
proof -
  have "erasing s" using assms by (simp add: erasing_def)
  then show ?thesis
    by (simp only: handleMouseMove_erasing eraseKeeps_iff [abs_def])
qed

theorem eraser_removes_touched_strokes_witness:
  "isDragging (handleMouseDown (initialState\<lparr>mode := MEraser, items :=
       [newStroke ''a'' [\<lparr>p_x = 10, p_y = 10\<rparr>] ''#000000'' 4 Solid,
        newStroke ''b'' [\<lparr>p_x = 100, p_y = 10\<rparr>] ''#000000'' 4 Solid,
        (newWidget None Ruler ''r'')\<lparr>i_x := 10, i_y := 300\<rparr>]\<rparr>) 10 10 0 ''u'')
   \<and> mode (handleMouseDown (initialState\<lparr>mode := MEraser, items :=
       [newStroke ''a'' [\<lparr>p_x = 10, p_y = 10\<rparr>] ''#000000'' 4 Solid,
        newStroke ''b'' [\<lparr>p_x = 100, p_y = 10\<rparr>] ''#000000'' 4 Solid,
        (newWidget None Ruler ''r'')\<lparr>i_x := 10, i_y := 300\<rparr>]\<rparr>) 10 10 0 ''u'') = MEraser
   \<and> dragType (handleMouseDown (initialState\<lparr>mode := MEraser, items :=
       [newStroke ''a'' [\<lparr>p_x = 10, p_y = 10\<rparr>] ''#000000'' 4 Solid,
        newStroke ''b'' [\<lparr>p_x = 100, p_y = 10\<rparr>] ''#000000'' 4 Solid,
        (newWidget None Ruler ''r'')\<lparr>i_x := 10, i_y := 300\<rparr>]\<rparr>) 10 10 0 ''u'') = None
   \<and> map i_id (items (handleMouseMove (handleMouseDown (initialState\<lparr>mode := MEraser, items :=
       [newStroke ''a'' [\<lparr>p_x = 10, p_y = 10\<rparr>] ''#000000'' 4 Solid,
        newStroke ''b'' [\<lparr>p_x = 100, p_y = 10\<rparr>] ''#000000'' 4 Solid,
        (newWidget None Ruler ''r'')\<lparr>i_x := 10, i_y := 300\<rparr>]\<rparr>) 10 10 0 ''u'') 10 10))
       = [''b'', ''r'']"
proof -
  let ?its = "[newStroke ''a'' [\<lparr>p_x = 10, p_y = 10\<rparr>] ''#000000'' 4 Solid,
        newStroke ''b'' [\<lparr>p_x = 100, p_y = 10\<rparr>] ''#000000'' 4 Solid,
        (newWidget None Ruler ''r'')\<lparr>i_x := 10, i_y := 300\<rparr>]"
  let ?ini = "initialState\<lparr>mode := MEraser, items := ?its\<rparr>"
  let ?s = "handleMouseDown ?ini 10 10 0 ''u''"
  have m: "mode ?ini = MEraser" by simp
  note e = handleMouseDown_eraser [OF m, of 10 10 0 "''u''"]
  note h1 = e [THEN conjunct1]
  note h2 = e [THEN conjunct2, THEN conjunct1]
  note h3 = e [THEN conjunct2, THEN conjunct2]
  have i0: "items ?ini = ?its" by simp
  have "hitTest ?its 10 10 = None"
    by (simp add: hitTest_last hitCandidate_def isHidden_def newStroke_def newWidget_def hypot_0)
  then have i: "items ?s = ?its"
    by (simp only: handleMouseDown_items i0 m option.case) simp
  from eraser_removes_touched_strokes [OF h1 h2 h3, of 10 10]
  have "map i_id (items (handleMouseMove ?s 10 10)) = [''b'', ''r'']"
    by (simp only: i) (simp add: newStroke_def newWidget_def isHidden_def hypot_0)
  with h1 h2 h3 show ?thesis by blast
qed

section \<open>Text widget\<close>

lemma addWidget_Text_items:
  "items (addWidget s Text u) =
     map (\<lambda>i. i\<lparr>i_selected := Some False\<rparr>) (items s) @ [newWidget (canvas s) Text u]"
  by (simp add: addWidget_def singletons_def)

lemma newWidget_hit: "ty \<noteq> Stroke \<Longrightarrow>
  hitCandidate (i_x (newWidget cv ty u)) (i_y (newWidget cv ty u)) (newWidget cv ty u)"
  by (simp add: hitCandidate_def isHidden_def newWidget_def Let_def hypot_0)

text \<open>
  C10 (amended). The text tool appends to the store a widget of type \<open>Text\<close> whose \<open>text\<close>
  is undefined, visible and selected; the renderer hands it to \<open>drawTextWidget\<close>, which
  performs no canvas operation for a widget whose text is absent or empty. The widget is
  listed in the layer panel and it is also a target of the pointer-down hit test at its
  pivot.
\<close>

theorem text_widget_draws_nothing:
  "items (addWidget s Text u) =
     map (\<lambda>i. i\<lparr>i_selected := Some False\<rparr>) (items s) @ [last (items (addWidget s Text u))]
   \<and> i_type (last (items (addWidget s Text u))) = Text
   \<and> i_id (last (items (addWidget s Text u))) = u
   \<and> i_text (last (items (addWidget s Text u))) = None
   \<and> i_visible (last (items (addWidget s Text u))) = Some True
   \<and> renderItem (last (items (addWidget s Text u))) = [DrawTextWidget (last (items (addWidget s Text u)))]
   \<and> drawTextWidget measureText (last (items (addWidget s Text u))) = []
   \<and> drawTextWidget measureText (t\<lparr>i_text := None\<rparr>) = []
   \<and> drawTextWidget measureText (t\<lparr>i_text := Some []\<rparr>) = []
   \<and> hitTest (items (addWidget s Text u))
        (i_x (last (items (addWidget s Text u)))) (i_y (last (items (addWidget s Text u))))
       = Some (last (items (addWidget s Text u)))
   \<and> last (items (addWidget s Text u)) \<in> set (widgetItems (addWidget s Text u))"
proof -
  let ?w = "newWidget (canvas s) Text u"
  have l: "last (items (addWidget s Text u)) = ?w" by (simp add: addWidget_Text_items)
  have f: "filter (hitCandidate (i_x ?w) (i_y ?w)) (items (addWidget s Text u)) \<noteq> []"
    "last (filter (hitCandidate (i_x ?w) (i_y ?w)) (items (addWidget s Text u))) = ?w"
    using newWidget_hit [of Text "canvas s" u] by (simp_all add: addWidget_Text_items)
  have h: "hitTest (items (addWidget s Text u)) (i_x ?w) (i_y ?w) = Some ?w"
    by (simp only: hitTest_last f if_False)
  have p: "i_type ?w = Text" "i_id ?w = u" "i_text ?w = None" "i_visible ?w = Some True"
    by (simp_all add: newWidget_def Let_def)
  have r: "renderItem ?w = [DrawTextWidget ?w]" by (simp add: renderItem_def p)
  have d: "drawTextWidget measureText ?w = []" by (simp add: drawTextWidget_def p)
  have m: "?w \<in> set (widgetItems (addWidget s Text u))"
    by (simp add: widgetItems_def addWidget_Text_items p)
  show ?thesis
    unfolding l using addWidget_Text_items [of s u] p r d h m
    by (simp add: drawTextWidget_def)
qed

text \<open>
  The claim as stated fails on "reachable only through the layer panel": on the board
  holding only a new text widget, pointer-down at the canvas centre hits the widget,
  selects it and starts a move; the next pointer-move drags it from \<open>x = 400\<close> to
  \<open>x = 450\<close>.
\<close>

theorem text_widget_reached_on_canvas:
  "hitTest (items (addWidget initialState Text ''t'')) 400 300
     = Some (hd (items (addWidget initialState Text ''t'')))
   \<and> selectedItemId (handleMouseDown (addWidget initialState Text ''t'') 400 300 0 ''u'') = Some ''t''
   \<and> dragType (handleMouseDown (addWidget initialState Text ''t'') 400 300 0 ''u'') = Some Move
   \<and> map i_x (items (addWidget initialState Text ''t'')) = [400]
   \<and> map i_x (items (handleMouseMove (handleMouseDown (addWidget initialState Text ''t'') 400 300 0 ''u'') 450 300))
       = [450]"
proof -
  let ?s = "addWidget initialState Text ''t''"
  have i: "items ?s = [newWidget None Text ''t'']"
    by (simp add: addWidget_Text_items initialState_def)
  have md: "mode ?s = MSelect" by (simp add: addWidget_def singletons_def)
  have x: "i_x (newWidget None Text ''t'') = 400" "i_y (newWidget None Text ''t'') = 300"
      "i_id (newWidget None Text ''t'') = ''t''"
    by (simp_all add: newWidget_def)
  have h: "hitTest (items ?s) 400 300 = Some (newWidget None Text ''t'')"
    using newWidget_hit [of Text None "''t''"] by (simp add: i hitTest_last x)
  have a: "selectedItemId (handleMouseDown ?s 400 300 0 ''u'') = Some ''t''"
      "dragType (handleMouseDown ?s 400 300 0 ''u'') = Some Move"
      "isDragging (handleMouseDown ?s 400 300 0 ''u'')"
      "lastPos (handleMouseDown ?s 400 300 0 ''u'') = \<lparr>p_x = 400, p_y = 300\<rparr>"
      "mode (handleMouseDown ?s 400 300 0 ''u'') = MSelect"
      "currentStroke (handleMouseDown ?s 400 300 0 ''u'') = currentStroke ?s"
    by (simp_all add: handleMouseDown_def h md x Let_def)
  have b: "items (handleMouseDown ?s 400 300 0 ''u'')
             = [(newWidget None Text ''t'')\<lparr>i_selected := Some True\<rparr>]"
    by (simp only: handleMouseDown_items h option.case) (simp add: i x)
  have "map i_x (items (handleMouseMove (handleMouseDown ?s 400 300 0 ''u'') 450 300)) = [450]"
    by (simp add: handleMouseMove_def a b truthyId_def x Let_def)
  with h a show ?thesis by (simp add: i x)
qed

section \<open>Singleton instruments\<close>

lemma slotIsStroke_step:
  assumes "slotIsStroke s"
  shows "slotIsStroke (step s e)"
proof (cases e)
  case (MouseDown x y b u)
  with assms show ?thesis
    by (auto simp: slotIsStroke_def handleMouseDown_def Let_def newStroke_def split: option.splits)
next
  case (MouseMove x y)
  with assms show ?thesis
    by (auto simp: slotIsStroke_def handleMouseMove_def Let_def split: option.splits)
next
  case MouseUp
  with assms show ?thesis
    by (auto simp: slotIsStroke_def handleMouseUp_def Let_def split: option.splits)
next
  case (Wheel d)
  with assms show ?thesis by (auto simp: slotIsStroke_def handleWheel_def Let_def)
next
  case (AddWidget ty u)
  with assms show ?thesis
    by (auto simp: slotIsStroke_def addWidget_def Let_def split: option.splits)
next
  case (PanelSelect k)
  with assms show ?thesis by (auto simp: slotIsStroke_def onRow_def panelSelect_def)
next
  case (PanelToggle k)
  with assms show ?thesis by (auto simp: slotIsStroke_def onRow_def toggleVisibility_def)
next
  case (PanelDelete k)
  with assms show ?thesis by (auto simp: slotIsStroke_def onRow_def deleteItem_def)
qed (use assms in \<open>auto simp: slotIsStroke_def clearBoard_def handleCanvasPaste_def handleGenerateTikz_def\<close>)








lemma countType_Nil [simp]: "countType ty [] = 0"
  by (simp add: countType_def)

lemma countType_single [simp]: "countType ty [i] = (if i_type i = ty then 1 else 0)"
  by (simp add: countType_def)




lemma newWidget_type [simp]: "i_type (newWidget cv ty u) = ty"
  by (simp add: newWidget_def Let_def)

lemma imageWidget_type [simp]: "i_type (imageWidget s u src w h dx dy sc) = ImageT"
  by (simp add: imageWidget_def)






lemma mapIdx_length [simp]: "length (mapIdx f as) = length as"
  by (simp add: mapIdx_def)





section \<open>The in-progress stroke and the strokes of the store\<close>

lemma sameCore_ids: "list_all2 sameCore as bs \<Longrightarrow> map i_id bs = map i_id as"
  by (induction rule: list_all2_induct) (auto simp: sameCore_def strokeData_def)

lemma step_ids:
  "map i_id (items (step s e)) = map i_id (filter (kept s e) (items s)) @ map i_id (appended s e)"
proof -
  from step_effect [of s e] obtain body where
    b: "items (step s e) = body @ appended s e"
       "list_all2 sameCore (filter (kept s e) (items s)) body" by blast
  show ?thesis by (simp add: b(1) sameCore_ids [OF b(2)])
qed

lemma slotId_MouseDown:
  "slotId (handleMouseDown s x y b u) = slotId s \<or> slotId (handleMouseDown s x y b u) = Some u"
  by (simp add: slotId_def handleMouseDown_def Let_def newStroke_def split: option.splits)

lemma slotId_MouseMove: "slotId (handleMouseMove s x y) = slotId s"
  by (auto simp: slotId_def handleMouseMove_def Let_def option.map_comp comp_def
      split: option.splits)

lemma slotId_MouseUp: "slotId (handleMouseUp s) = (if finalizes s then None else slotId s)"
  by (auto simp: slotId_def handleMouseUp_def finalizes_def Let_def split: option.splits)

lemma slotId_Wheel: "slotId (handleWheel s d) = slotId s"
  by (simp add: slotId_def handleWheel_def Let_def)

lemma slotId_addWidget: "slotId (addWidget s ty u) = slotId s"
  by (simp add: slotId_def addWidget_def Let_def split: option.splits)

lemma slotId_onRow:
  "(\<And>t w. slotId (h t w) = slotId t) \<Longrightarrow> slotId (onRow s k h) = slotId s"
  by (simp add: onRow_def)

lemma slotId_panel:
  "slotId (panelSelect s w) = slotId s"
  "slotId (toggleVisibility s w) = slotId s"
  "slotId (deleteItem s w) = slotId s"
  by (simp_all add: slotId_def panelSelect_def toggleVisibility_def deleteItem_def)

lemma step_slot:
  "slotId (step s e) = (if e = MouseUp \<and> finalizes s then None else slotId s)
   \<or> (\<exists>x y b u. e = MouseDown x y b u \<and> slotId (step s e) = Some u)"
proof (cases e)
  case (MouseDown x y b u)
  then show ?thesis using slotId_MouseDown [of s x y b u] by auto
next
  case (MouseMove x y)
  then show ?thesis by (simp add: slotId_MouseMove)
next
  case MouseUp
  then show ?thesis by (simp add: slotId_MouseUp)
next
  case (Wheel d)
  then show ?thesis by (simp add: slotId_Wheel)
next
  case (AddWidget ty u)
  then show ?thesis by (simp add: slotId_addWidget)
next
  case (PanelSelect k)
  then show ?thesis by (simp add: slotId_onRow slotId_panel)
next
  case (PanelToggle k)
  then show ?thesis by (simp add: slotId_onRow slotId_panel)
next
  case (PanelDelete k)
  then show ?thesis by (simp add: slotId_onRow slotId_panel)
qed (simp_all add: slotId_def clearBoard_def handleCanvasPaste_def handleGenerateTikz_def)

lemma newWidget_id [simp]: "i_id (newWidget cv ty u) = u"
  by (simp add: newWidget_def Let_def)

lemma imageWidget_id [simp]: "i_id (imageWidget s u src w h dx dy sc) = u"
  by (simp add: imageWidget_def)

lemma appended_ids:
  "map i_id (appended s e) =
     (case e of
        MouseUp \<Rightarrow> (if finalizes s then (case slotId s of Some i \<Rightarrow> [i] | None \<Rightarrow> []) else [])
      | AddWidget ty u \<Rightarrow> (if creates s ty then [u] else [])
      | CanvasPaste b w h u \<Rightarrow> [u]
      | TikzLoaded b w h u \<Rightarrow> [u]
      | _ \<Rightarrow> [])"
  by (cases e) (simp_all add: slotId_def split: option.splits)

lemma distinct_filter_ids:
  "distinct (map i_id its @ r) \<Longrightarrow> distinct (map i_id (filter P its) @ r)"
  by (induction its) auto

lemma usedIds_step:
  "usedIds (step s e) =
     map i_id (filter (kept s e) (items s)) @ map i_id (appended s e)
       @ (case slotId (step s e) of Some i \<Rightarrow> [i] | None \<Rightarrow> [])"
  by (simp add: usedIds_def step_ids)

lemma storeInv_step:
  assumes inv: "storeInv s" and ok: "eventOk s e"
  shows "storeInv (step s e)"
proof -
  from inv have d: "distinct (usedIds s)" and t: "slotIsStroke s" by (simp_all add: storeInv_def)
  have d1: "distinct (map i_id (items s) @ (case slotId s of Some i \<Rightarrow> [i] | None \<Rightarrow> []))"
    using d by (simp add: usedIds_def)
  have dk: "distinct (map i_id (filter (kept s e) (items s)) @ (case slotId s of Some i \<Rightarrow> [i] | None \<Rightarrow> []))"
    using d1 by (rule distinct_filter_ids)
  have dk0: "distinct (map i_id (filter (kept s e) (items s)))"
    using dk by simp
  have "distinct (usedIds (step s e))"
  proof (cases e)
    case (MouseDown x y b u)
    with ok have u: "u \<notin> set (usedIds s)" by simp
    from slotId_MouseDown [of s x y b u] u d1 show ?thesis
      unfolding usedIds_step MouseDown by (auto simp: usedIds_def split: option.splits)
  next
    case MouseUp
    have ap: "map i_id (appended s MouseUp)
                = (if finalizes s then (case slotId s of Some i \<Rightarrow> [i] | None \<Rightarrow> []) else [])"
      using appended_ids [of s MouseUp] by simp
    have kp: "filter (kept s MouseUp) (items s) = items s" by simp
    have sl: "slotId (step s MouseUp) = (if finalizes s then None else slotId s)"
      by (simp add: slotId_MouseUp)
    have "usedIds (step s MouseUp) =
            map i_id (items s)
              @ (if finalizes s then (case slotId s of Some i \<Rightarrow> [i] | None \<Rightarrow> []) else [])
              @ (case (if finalizes s then None else slotId s) of Some i \<Rightarrow> [i] | None \<Rightarrow> [])"
      by (simp only: usedIds_step [of s MouseUp] ap kp sl)
    then show ?thesis
      unfolding MouseUp using d1 by (cases "finalizes s") simp_all
  next
    case (AddWidget ty u)
    with ok have u: "u \<notin> set (usedIds s)" by simp
    then show ?thesis
      using d1 unfolding usedIds_step AddWidget
      by (auto simp: appended_ids slotId_addWidget usedIds_def simp del: appended.simps
          split: option.splits)
  next
    case (CanvasPaste b w h u)
    with ok have u: "u \<notin> set (usedIds s)" by simp
    have sl: "slotId (step s e) = slotId s"
      unfolding CanvasPaste by (simp add: slotId_def handleCanvasPaste_def)
    from u d1 show ?thesis
      unfolding usedIds_step sl unfolding CanvasPaste
      by (auto simp: usedIds_def split: option.splits)
  next
    case (TikzLoaded b w h u)
    with ok have u: "u \<notin> set (usedIds s)" by simp
    have sl: "slotId (step s e) = slotId s"
      unfolding TikzLoaded by (simp add: slotId_def handleGenerateTikz_def)
    from u d1 show ?thesis
      unfolding usedIds_step sl unfolding TikzLoaded
      by (auto simp: usedIds_def split: option.splits)
  next
    case (MouseMove x y)
    have sl: "slotId (step s e) = slotId s" unfolding MouseMove by (simp add: slotId_MouseMove)
    have ap: "appended s e = []" unfolding MouseMove by simp
    from dk show ?thesis unfolding usedIds_step sl ap by simp
  next
    case (PanelDelete k)
    have sl: "slotId (step s e) = slotId s"
      unfolding PanelDelete by (simp add: slotId_onRow slotId_panel)
    have ap: "appended s e = []" unfolding PanelDelete by simp
    from dk show ?thesis unfolding usedIds_step sl ap by simp
  next
    case ClearBoard
    have sl: "slotId (step s e) = slotId s" unfolding ClearBoard by (simp add: slotId_def clearBoard_def)
    have ap: "appended s e = []" unfolding ClearBoard by simp
    from dk show ?thesis unfolding usedIds_step sl ap by simp
  next
    case (Wheel dl)
    have sl: "slotId (step s e) = slotId s" unfolding Wheel by (simp add: slotId_Wheel)
    have ap: "appended s e = []" unfolding Wheel by simp
    from dk show ?thesis unfolding usedIds_step sl ap by simp
  next
    case (PanelSelect k)
    have sl: "slotId (step s e) = slotId s"
      unfolding PanelSelect by (simp add: slotId_onRow slotId_panel)
    have ap: "appended s e = []" unfolding PanelSelect by simp
    from dk show ?thesis unfolding usedIds_step sl ap by simp
  next
    case (PanelToggle k)
    have sl: "slotId (step s e) = slotId s"
      unfolding PanelToggle by (simp add: slotId_onRow slotId_panel)
    have ap: "appended s e = []" unfolding PanelToggle by simp
    from dk show ?thesis unfolding usedIds_step sl ap by simp
  qed (use d in \<open>simp_all add: usedIds_def slotId_def\<close>)
  with slotIsStroke_step [OF t, of e] show ?thesis by (simp add: storeInv_def)
qed

lemma storeInv_initial: "storeInv initialState"
  by (simp add: storeInv_def usedIds_def slotId_def slotIsStroke_def initialState_def)

lemma run_Cons: "run s (e # es) = run (step s e) es"
  by (simp add: run_def)

lemma storeInv_run: "storeInv s \<Longrightarrow> runOk s es \<Longrightarrow> storeInv (run s es)"
proof (induction es arbitrary: s)
  case Nil
  then show ?case by (simp add: run_def)
next
  case (Cons e es)
  then show ?case by (simp add: run_Cons storeInv_step)
qed

lemma slot_not_in_store:
  assumes "storeInv s" "currentStroke s = Some c"
  shows "i_type c = Stroke \<and> c \<notin> set (items s) \<and> i_id c \<notin> i_id ` set (items s)"
  using assms by (auto simp: storeInv_def usedIds_def slotId_def slotIsStroke_def)

lemma storeInv_distinct: "storeInv s \<Longrightarrow> distinct (map i_id (items s))"
  by (simp add: storeInv_def usedIds_def)

lemma handleMouseUp_finalizes:
  assumes "finalizes s"
  shows "\<exists>c. currentStroke s = Some c \<and> items (handleMouseUp s) = items s @ [c]
            \<and> currentStroke (handleMouseUp s) = None"
  using assms by (auto simp: finalizes_def handleMouseUp_def Let_def)

lemma sameCore_data: "sameCore i j \<Longrightarrow> strokeData i = strokeData j"
  by (simp add: sameCore_def)

lemma appended_stroke:
  assumes "eventOk s e" "j \<in> set (appended s e)" "i_type j = Stroke"
  shows "e = MouseUp \<and> finalizes s \<and> currentStroke s = Some j"
proof (cases e)
  case MouseUp
  note m = assms(2) [unfolded MouseUp]
  have f: "finalizes s"
  proof (rule ccontr)
    assume "\<not> finalizes s"
    then have a: "appended s MouseUp = []" unfolding appended.simps by (rule if_not_P)
    from m show False unfolding a by simp
  qed
  have "currentStroke s = Some j"
  proof (cases "currentStroke s")
    case None
    then have a: "appended s MouseUp = []" by simp
    from m show ?thesis unfolding a by simp
  next
    case (Some c)
    with f have a: "appended s MouseUp = [c]" by simp
    from m Some show ?thesis unfolding a by simp
  qed
  with f MouseUp show ?thesis by blast
next
  case (AddWidget ty u)
  with assms show ?thesis by (auto split: if_splits)
next
  case (CanvasPaste b w h u)
  with assms show ?thesis by auto
next
  case (TikzLoaded b w h u)
  with assms show ?thesis by auto
qed (use assms(2) in simp_all)

lemma stroke_provenance:
  assumes ok: "eventOk s e" and j: "j \<in> set (items (step s e))" "i_type j = Stroke"
  shows "(\<exists>i\<in>set (items s). strokeData i = strokeData j)
         \<or> (e = MouseUp \<and> finalizes s \<and> currentStroke s = Some j)"
proof -
  from step_effect [of s e] obtain body where
    b: "items (step s e) = body @ appended s e"
       "list_all2 sameCore (filter (kept s e) (items s)) body" by blast
  from j(1) b(1) consider "j \<in> set body" | "j \<in> set (appended s e)" by auto
  then show ?thesis
  proof cases
    case 1
    from list_all2_mem_right [OF b(2) 1] obtain i where
      "i \<in> set (filter (kept s e) (items s))" "sameCore i j" by blast
    then show ?thesis using sameCore_data by auto
  next
    case 2
    from appended_stroke [OF ok 2 j(2)] show ?thesis by blast
  qed
qed

lemma widgetItems_nth:
  "k < length (widgetItems s) \<Longrightarrow>
     widgetItems s ! k \<in> set (items s) \<and> i_type (widgetItems s ! k) \<noteq> Stroke"
  using nth_mem [of k "widgetItems s"] by (simp add: widgetItems_def)

lemma distinct_ids_eq:
  "distinct (map i_id its) \<Longrightarrow> a \<in> set its \<Longrightarrow> b \<in> set its \<Longrightarrow> i_id a = i_id b \<Longrightarrow> a = b"
  by (meson distinct_map inj_onD)

lemma stroke_kept:
  assumes inv: "storeInv s" and e: "e \<noteq> ClearBoard" "\<not> (erasing s \<and> (\<exists>x y. e = MouseMove x y))"
    and i: "i \<in> set (items s)" "i_type i = Stroke"
  shows "kept s e i"
proof (cases e)
  case (PanelDelete k)
  have "i_id i \<noteq> i_id (widgetItems s ! k)" if "k < length (widgetItems s)"
    using widgetItems_nth [OF that] distinct_ids_eq [OF storeInv_distinct [OF inv] i(1)] i(2)
    by metis
  then show ?thesis unfolding PanelDelete by auto
next
  case (MouseMove x y)
  with e(2) show ?thesis by simp
qed (use e(1) in simp_all)

lemma stroke_persists:
  assumes inv: "storeInv s" and e: "e \<noteq> ClearBoard" "\<not> (erasing s \<and> (\<exists>x y. e = MouseMove x y))"
    and i: "i \<in> set (items s)" "i_type i = Stroke"
  shows "\<exists>j\<in>set (items (step s e)). strokeData j = strokeData i"
  using kept_survives [OF i(1) stroke_kept [OF inv e i]] by (auto simp: sameCore_def)

text \<open>
  C9. In every state \<open>s\<close> that satisfies the invariant \<open>storeInv\<close>, which holds in the
  first render and after every run of admissible events, and for every admissible event
  \<open>e\<close>: the invariant holds after \<open>e\<close>; the ids of the store are distinct; the in-progress
  stroke, held in the slot \<open>currentStroke\<close>, is a stroke that is no element of the store
  (nor is its id); when a stroke is in progress from the pen or a compass arc, pointer-up
  appends it to the store as one item and empties the slot; a stroke in the store after
  \<open>e\<close> either was in the store before with the same id, points, colour, width and
  style, or is the in-progress stroke that this pointer-up has just appended; and every
  stroke of the store is still there, with the same data, after any event other than the
  clear-board button and an erasing pointer-move.
\<close>

theorem in_progress_stroke_separate:
  assumes "storeInv s" "eventOk s e"
  shows "(runOk initialState es \<longrightarrow> storeInv (run initialState es))
    \<and> storeInv (step s e)
    \<and> distinct (map i_id (items s))
    \<and> (\<forall>c. currentStroke s = Some c \<longrightarrow>
          i_type c = Stroke \<and> c \<notin> set (items s) \<and> i_id c \<notin> i_id ` set (items s))
    \<and> (finalizes s \<longrightarrow>
          (\<exists>c. currentStroke s = Some c \<and> items (handleMouseUp s) = items s @ [c]
                \<and> currentStroke (handleMouseUp s) = None))
    \<and> (\<forall>j\<in>set (items (step s e)). i_type j = Stroke \<longrightarrow>
          (\<exists>i\<in>set (items s). strokeData i = strokeData j)
          \<or> (e = MouseUp \<and> finalizes s \<and> currentStroke s = Some j))
    \<and> (e \<noteq> ClearBoard \<and> \<not> (erasing s \<and> (\<exists>x y. e = MouseMove x y)) \<longrightarrow>
          (\<forall>i\<in>set (items s). i_type i = Stroke \<longrightarrow>
             (\<exists>j\<in>set (items (step s e)). strokeData j = strokeData i)))"
proof (intro conjI)
  show "runOk initialState es \<longrightarrow> storeInv (run initialState es)"
    using storeInv_run [OF storeInv_initial] by blast
  show "storeInv (step s e)" using assms by (rule storeInv_step)
  show "distinct (map i_id (items s))" using assms(1) by (rule storeInv_distinct)
  show "\<forall>c. currentStroke s = Some c \<longrightarrow>
          i_type c = Stroke \<and> c \<notin> set (items s) \<and> i_id c \<notin> i_id ` set (items s)"
    using slot_not_in_store [OF assms(1)] by blast
  show "finalizes s \<longrightarrow>
          (\<exists>c. currentStroke s = Some c \<and> items (handleMouseUp s) = items s @ [c]
                \<and> currentStroke (handleMouseUp s) = None)"
    using handleMouseUp_finalizes by blast
  show "\<forall>j\<in>set (items (step s e)). i_type j = Stroke \<longrightarrow>
          (\<exists>i\<in>set (items s). strokeData i = strokeData j)
          \<or> (e = MouseUp \<and> finalizes s \<and> currentStroke s = Some j)"
    using stroke_provenance [OF assms(2)] by blast
  show "e \<noteq> ClearBoard \<and> \<not> (erasing s \<and> (\<exists>x y. e = MouseMove x y)) \<longrightarrow>
          (\<forall>i\<in>set (items s). i_type i = Stroke \<longrightarrow>
             (\<exists>j\<in>set (items (step s e)). strokeData j = strokeData i))"
    using stroke_persists [OF assms(1)] by blast
qed

lemma pen_run:
  "run initialState [SetMode MPen, MouseDown 10 10 0 ''a'', MouseMove 20 20] =
     initialState\<lparr>mode := MPen,
       currentStroke := Some (newStroke ''a'' [\<lparr>p_x = 10, p_y = 10\<rparr>, \<lparr>p_x = 20, p_y = 20\<rparr>] ''#000000'' 4 Solid),
       isDragging := True, lastPos := \<lparr>p_x = 20, p_y = 20\<rparr>\<rparr>"
  by (simp add: run_def handleMouseDown_def handleMouseMove_def initialState_def newStroke_def
      hitTest_def Let_def)

theorem in_progress_stroke_separate_witness:
  "storeInv (run initialState [SetMode MPen, MouseDown 10 10 0 ''a'', MouseMove 20 20])
   \<and> eventOk (run initialState [SetMode MPen, MouseDown 10 10 0 ''a'', MouseMove 20 20]) MouseUp
   \<and> finalizes (run initialState [SetMode MPen, MouseDown 10 10 0 ''a'', MouseMove 20 20])
   \<and> items (run initialState [SetMode MPen, MouseDown 10 10 0 ''a'', MouseMove 20 20]) = []
   \<and> items (step (run initialState [SetMode MPen, MouseDown 10 10 0 ''a'', MouseMove 20 20]) MouseUp)
       = [newStroke ''a'' [\<lparr>p_x = 10, p_y = 10\<rparr>, \<lparr>p_x = 20, p_y = 20\<rparr>] ''#000000'' 4 Solid]
   \<and> currentStroke (step (run initialState [SetMode MPen, MouseDown 10 10 0 ''a'', MouseMove 20 20]) MouseUp)
       = None
   \<and> storeInv (step (run initialState [SetMode MPen, MouseDown 10 10 0 ''a'', MouseMove 20 20]) MouseUp)"
proof -
  let ?es = "[SetMode MPen, MouseDown 10 10 0 ''a'', MouseMove 20 20]"
  let ?t = "run initialState ?es"
  have ok: "runOk initialState ?es"
    by (simp add: usedIds_def slotId_def initialState_def)
  have inv: "storeInv ?t" using storeInv_run [OF storeInv_initial ok] .
  have ev: "eventOk ?t MouseUp" by simp
  have fin: "finalizes ?t" by (simp add: pen_run finalizes_def)
  have it: "items ?t = []" by (simp only: pen_run) (simp add: initialState_def)
  have cs: "currentStroke ?t =
      Some (newStroke ''a'' [\<lparr>p_x = 10, p_y = 10\<rparr>, \<lparr>p_x = 20, p_y = 20\<rparr>] ''#000000'' 4 Solid)"
    by (simp add: pen_run)
  note th = in_progress_stroke_separate [OF inv ev, of ?es]
  from th have a: "storeInv (step ?t MouseUp)" by blast
  from th fin have "\<exists>c. currentStroke ?t = Some c \<and> items (handleMouseUp ?t) = items ?t @ [c]
                \<and> currentStroke (handleMouseUp ?t) = None" by blast
  then have b: "items (step ?t MouseUp)
       = [newStroke ''a'' [\<lparr>p_x = 10, p_y = 10\<rparr>, \<lparr>p_x = 20, p_y = 20\<rparr>] ''#000000'' 4 Solid]"
    and c: "currentStroke (step ?t MouseUp) = None"
    by (auto simp: cs it)
  from inv ev fin it a b c show ?thesis by blast
qed

section \<open>Selection\<close>

lemma filter_fst_le1:
  "distinct (map fst ps) \<Longrightarrow> length (filter (\<lambda>p. fst p = k \<and> b) ps) \<le> 1"
proof (induction ps)
  case Nil
  then show ?case by simp
next
  case (Cons p ps)
  show ?case
  proof (cases "fst p = k \<and> b")
    case True
    from Cons.prems have "fst p \<notin> fst ` set ps" by simp
    with True have "\<forall>q\<in>set ps. \<not> (fst q = k \<and> b)" by (metis imageI)
    then have "filter (\<lambda>q. fst q = k \<and> b) ps = []"
      by (simp only: filter_empty_conv)
    with True show ?thesis by simp
  next
    case False
    then have "filter (\<lambda>q. fst q = k \<and> b) (p # ps) = filter (\<lambda>q. fst q = k \<and> b) ps"
      by simp
    moreover from Cons.prems have "distinct (map fst ps)" by simp
    ultimately show ?thesis using Cons.IH by simp
  qed
qed

lemma selectedCount_mapIdx:
  "selectedCount (mapIdx (\<lambda>i idx. if idx = k then i\<lparr>i_visible := v, i_selected := Some b\<rparr>
                                   else i\<lparr>i_selected := Some False\<rparr>) its) \<le> 1"
proof -
  have "filter (\<lambda>i. i_selected i = Some True)
          (map (\<lambda>(idx, i). if idx = k then i\<lparr>i_visible := v, i_selected := Some b\<rparr>
                            else i\<lparr>i_selected := Some False\<rparr>) ps)
        = map (\<lambda>(idx, i). if idx = k then i\<lparr>i_visible := v, i_selected := Some b\<rparr>
                            else i\<lparr>i_selected := Some False\<rparr>)
            (filter (\<lambda>p. fst p = k \<and> b) ps)" for ps :: "(nat \<times> CanvasItem) list"
    by (induction ps) (auto split: if_splits)
  then show ?thesis
    using filter_fst_le1 [of "enumerate 0 its" k b]
    by (simp add: selectedCount_def mapIdx_def)
qed

lemma selectedCount_deselect [simp]:
  "selectedCount (map (\<lambda>i. i\<lparr>i_selected := Some False\<rparr>) its) = 0"
  by (induction its) (simp_all add: selectedCount_def)

lemma addWidget_selects_at_most_one: "selectedCount (items (addWidget s ty u)) \<le> 1"
proof (cases "if ty \<in> set singletons then findIndex (\<lambda>i. i_type i = ty) (items s) else None")
  case None
  then have "items (addWidget s ty u) =
      map (\<lambda>i. i\<lparr>i_selected := Some False\<rparr>) (items s) @ [newWidget (canvas s) ty u]"
    by (simp add: addWidget_def)
  moreover have "selectedCount (as @ bs) = selectedCount as + selectedCount bs" for as bs
    by (simp add: selectedCount_def)
  ultimately show ?thesis by (simp add: selectedCount_def)
next
  case (Some k)
  then have "items (addWidget s ty u) =
           mapIdx (\<lambda>i idx. if idx = k
                            then i\<lparr>i_visible := Some (i_visible (items s ! k) = Some False),
                                   i_selected := Some (i_visible (items s ! k) = Some False)\<rparr>
                            else i\<lparr>i_selected := Some False\<rparr>) (items s)"
    by (simp add: addWidget_def Let_def)
  then show ?thesis by (simp only: selectedCount_mapIdx)
qed

text \<open>
  C4 (the code at the failing input). On the board where the ruler tool has been invoked
  once, one item is selected. When a pasted image, or a generated diagram, has loaded,
  \<open>handleCanvasPaste\<close> (\<open>handleGenerateTikz\<close>) appends a selected image widget and leaves
  the ruler selected: two items have \<open>selected = true\<close>. The creation path of
  \<open>addWidget\<close>, here for a text widget, deselects the others first and leaves one; after
  \<open>addWidget\<close> at most one item is ever selected (\<open>addWidget_selects_at_most_one\<close>).
\<close>

theorem paste_leaves_two_selected:
  "selectedCount (items (addWidget initialState Ruler ''r'')) = 1
   \<and> selectedCount (items (handleCanvasPaste (addWidget initialState Ruler ''r'')
                             ''data:image/png;base64,AAAA'' 10 10 ''i'')) = 2
   \<and> selectedCount (items (handleGenerateTikz (addWidget initialState Ruler ''r'')
                             ''data:image/png;base64,AAAA'' 10 10 ''i'')) = 2
   \<and> selectedCount (items (addWidget (addWidget initialState Ruler ''r'') Text ''i'')) = 1"
  by (simp add: selectedCount_def handleCanvasPaste_def handleGenerateTikz_def imageWidget_def
      addWidget_def newWidget_def initialState_def singletons_def)

end
